theory Spec2Isabelle
  imports Complex_Main "HOL-Library.Multiset"
begin

section \<open>Data model\<close>

text \<open>
  Identities are opaque keys: a well-formed ObjectId is never an empty string, so the
  truthiness tests of the controllers on an id amount to its presence. Instants are
  milliseconds since the epoch.
\<close>

type_synonym oid = nat
type_synonym time = int

record task_comment =
  content :: string
  author :: oid
  commentCreatedAt :: time

record attachment =
  filename :: string
  url :: string
  uploadedAt :: time

text \<open>The Task schema of the model file, with the two paths added by \<open>timestamps: true\<close>.\<close>

record task =
  task_id :: oid
  title :: string
  description :: "string option"
  status :: string
  priority :: string
  category :: string
  dueDate :: "time option"
  completedAt :: "time option"
  assignedTo :: oid
  createdBy :: oid
  tags :: "string list"
  attachments :: "attachment list"
  comments :: "task_comment list"
  isArchived :: bool
  createdAt :: time
  updatedAt :: time

text \<open>The authenticated caller, \<open>req.user\<close>.\<close>

record user =
  user_id :: oid
  role :: string
  isActive :: bool
  passwordChangedAt :: "time option"
  lastLogin :: "time option"

text \<open>
  The request body. Each key is absent (\<open>None\<close>) or carries a value of the type the
  schema gives the path; \<open>dueDate\<close> may also be an explicit null. The last four fields
  are keys a client may submit although no operation accepts them: three paths of the
  schema, and the names of any keys that are not paths of the schema.
\<close>

record body =
  b_title :: "string option"
  b_description :: "string option"
  b_status :: "string option"
  b_priority :: "string option"
  b_category :: "string option"
  b_dueDate :: "time option option"
  b_assignedTo :: "oid option"
  b_tags :: "string list option"
  b_isArchived :: "bool option"
  b_content :: "string option"
  b_createdBy :: "oid option"
  b_completedAt :: "time option option"
  b_comments :: "task_comment list option"
  b_other :: "string list"

datatype error = NotFound | Forbidden | ValidationFailed | DueDateNotFuture

text \<open>The collection of stored tasks, in insertion order.\<close>

type_synonym store = "task list"

section \<open>The Task model\<close>

subsection \<open>Setters and validators of the schema\<close>

definition is_space :: "char \<Rightarrow> bool" where
  "is_space c = (c \<in> set [CHR 0x09, CHR 0x0A, CHR 0x0B, CHR 0x0C, CHR 0x0D, CHR '' ''])"

definition trim :: "string \<Rightarrow> string" where
  "trim s = rev (dropWhile is_space (rev (dropWhile is_space s)))"

definition status_values :: "string list" where
  "status_values = [''pending'', ''in-progress'', ''completed'', ''cancelled'']"

definition priority_values :: "string list" where
  "priority_values = [''low'', ''medium'', ''high'', ''urgent'']"

definition valid_title :: "string \<Rightarrow> bool" where
  "valid_title s = (s \<noteq> [] \<and> 1 \<le> length s \<and> length s \<le> 200)"

definition valid_description :: "string option \<Rightarrow> bool" where
  "valid_description d = (case d of None \<Rightarrow> True | Some s \<Rightarrow> length s \<le> 1000)"

definition valid_status :: "string \<Rightarrow> bool" where
  "valid_status s = (s \<in> set status_values)"

definition valid_priority :: "string \<Rightarrow> bool" where
  "valid_priority s = (s \<in> set priority_values)"

definition valid_category :: "string \<Rightarrow> bool" where
  "valid_category s = (length s \<le> 50)"

text \<open>The validator of \<open>dueDate\<close>: \<open>!value || value > new Date()\<close>.\<close>

definition valid_dueDate :: "time \<Rightarrow> time option \<Rightarrow> bool" where
  "valid_dueDate now d = (case d of None \<Rightarrow> True | Some v \<Rightarrow> v > now)"

definition valid_tags :: "string list \<Rightarrow> bool" where
  "valid_tags ts = list_all (\<lambda>s. length s \<le> 30) ts"

definition valid_comment :: "task_comment \<Rightarrow> bool" where
  "valid_comment c = (content c \<noteq> [] \<and> length (content c) \<le> 500)"

definition validate_task :: "time \<Rightarrow> task \<Rightarrow> bool" where
  "validate_task now t =
     (valid_title (title t) \<and> valid_description (description t) \<and> valid_status (status t) \<and>
      valid_priority (priority t) \<and> valid_category (category t) \<and>
      valid_dueDate now (dueDate t) \<and> valid_tags (tags t) \<and> list_all valid_comment (comments t))"

subsection \<open>The two pre-save hooks\<close>

text \<open>
  The first hook derives \<open>completedAt\<close> when \<open>status\<close> is a modified path of the
  document; the second fails the save of a document whose due date is not after the
  clock. A hook's \<open>next\<close> takes effect once, so the error of the second hook is the
  outcome of the save.
\<close>

definition pre_save_completedAt :: "bool \<Rightarrow> time \<Rightarrow> task \<Rightarrow> task" where
  "pre_save_completedAt status_modified now t =
     (if status_modified then
        (if status t = ''completed'' \<and> completedAt t = None then t\<lparr>completedAt := Some now\<rparr>
         else if status t \<noteq> ''completed'' then t\<lparr>completedAt := None\<rparr>
         else t)
      else t)"

definition pre_save_dueDate :: "time \<Rightarrow> task \<Rightarrow> error + task" where
  "pre_save_dueDate now t =
     (case dueDate t of
        Some d \<Rightarrow> if d \<le> now then Inl DueDateNotFuture else Inr t
      | None \<Rightarrow> Inr t)"

definition pre_save :: "bool \<Rightarrow> time \<Rightarrow> task \<Rightarrow> error + task" where
  "pre_save status_modified now t = pre_save_dueDate now (pre_save_completedAt status_modified now t)"

subsection \<open>Instance methods\<close>

definition canModify :: "task \<Rightarrow> oid \<Rightarrow> string \<Rightarrow> bool" where
  "canModify t userId userRole =
     (if userRole = ''admin'' then True
      else createdBy t = userId \<or> assignedTo t = userId)"

subsection \<open>Repository operations\<close>

definition findById :: "store \<Rightarrow> oid \<Rightarrow> task option" where
  "findById s i = find (\<lambda>t. task_id t = i) s"

fun replace_task :: "task \<Rightarrow> store \<Rightarrow> store" where
  "replace_task t' [] = []"
| "replace_task t' (t # ts) = (if task_id t = task_id t' then t' # ts else t # replace_task t' ts)"

fun remove_task :: "oid \<Rightarrow> store \<Rightarrow> store" where
  "remove_task i [] = []"
| "remove_task i (t # ts) = (if task_id t = i then ts else t # remove_task i ts)"

text \<open>
  \<open>Task.create\<close>: build the document with the defaults and setters of the schema,
  validate every path, run the pre-save hooks (\<open>status\<close> counts as modified when the
  caller supplied it), stamp it and insert it.
\<close>

definition new_task :: "oid \<Rightarrow> oid \<Rightarrow> oid \<Rightarrow> body \<Rightarrow> task" where
  "new_task newId assignee creator b =
     \<lparr> task_id = newId,
       title = (case b_title b of None \<Rightarrow> [] | Some s \<Rightarrow> trim s),
       description = map_option trim (b_description b),
       status = (case b_status b of None \<Rightarrow> ''pending'' | Some s \<Rightarrow> s),
       priority = (case b_priority b of None \<Rightarrow> ''medium'' | Some s \<Rightarrow> s),
       category = (case b_category b of None \<Rightarrow> ''general'' | Some s \<Rightarrow> trim s),
       dueDate = (case b_dueDate b of None \<Rightarrow> None | Some d \<Rightarrow> d),
       completedAt = None,
       assignedTo = assignee,
       createdBy = creator,
       tags = (case b_tags b of None \<Rightarrow> [] | Some ts \<Rightarrow> map trim ts),
       attachments = [],
       comments = [],
       isArchived = False,
       createdAt = 0,
       updatedAt = 0 \<rparr>"

definition Task_create :: "time \<Rightarrow> oid \<Rightarrow> oid \<Rightarrow> oid \<Rightarrow> body \<Rightarrow> error + task" where
  "Task_create now newId assignee creator b =
     (let doc = new_task newId assignee creator b in
      if \<not> validate_task now doc then Inl ValidationFailed
      else case pre_save (b_status b \<noteq> None) now doc of
             Inl e \<Rightarrow> Inl e
           | Inr d \<Rightarrow> Inr (d\<lparr>createdAt := now, updatedAt := now\<rparr>))"

text \<open>
  \<open>findByIdAndUpdate\<close> with \<open>runValidators\<close>: the update validators check the paths
  that are set, the keys of the update are written to the stored document together with
  a fresh \<open>updatedAt\<close>, and no save hook runs. Keys that are not paths of the schema are
  discarded by the write.
\<close>

definition validate_update :: "time \<Rightarrow> body \<Rightarrow> bool" where
  "validate_update now u =
     ((case b_title u of None \<Rightarrow> True | Some s \<Rightarrow> valid_title (trim s)) \<and>
      valid_description (map_option trim (b_description u)) \<and>
      (case b_status u of None \<Rightarrow> True | Some s \<Rightarrow> valid_status s) \<and>
      (case b_priority u of None \<Rightarrow> True | Some s \<Rightarrow> valid_priority s) \<and>
      (case b_category u of None \<Rightarrow> True | Some s \<Rightarrow> valid_category (trim s)) \<and>
      (case b_dueDate u of None \<Rightarrow> True | Some d \<Rightarrow> valid_dueDate now d) \<and>
      (case b_tags u of None \<Rightarrow> True | Some ts \<Rightarrow> valid_tags (map trim ts)) \<and>
      (case b_comments u of None \<Rightarrow> True | Some cs \<Rightarrow> list_all valid_comment cs))"

definition apply_update :: "time \<Rightarrow> body \<Rightarrow> task \<Rightarrow> task" where
  "apply_update now u t =
     t\<lparr> title := (case b_title u of None \<Rightarrow> title t | Some s \<Rightarrow> trim s),
        description := (case b_description u of None \<Rightarrow> description t | Some s \<Rightarrow> Some (trim s)),
        status := (case b_status u of None \<Rightarrow> status t | Some s \<Rightarrow> s),
        priority := (case b_priority u of None \<Rightarrow> priority t | Some s \<Rightarrow> s),
        category := (case b_category u of None \<Rightarrow> category t | Some s \<Rightarrow> trim s),
        dueDate := (case b_dueDate u of None \<Rightarrow> dueDate t | Some d \<Rightarrow> d),
        assignedTo := (case b_assignedTo u of None \<Rightarrow> assignedTo t | Some a \<Rightarrow> a),
        tags := (case b_tags u of None \<Rightarrow> tags t | Some ts \<Rightarrow> map trim ts),
        isArchived := (case b_isArchived u of None \<Rightarrow> isArchived t | Some a \<Rightarrow> a),
        createdBy := (case b_createdBy u of None \<Rightarrow> createdBy t | Some c \<Rightarrow> c),
        completedAt := (case b_completedAt u of None \<Rightarrow> completedAt t | Some c \<Rightarrow> c),
        comments := (case b_comments u of None \<Rightarrow> comments t | Some cs \<Rightarrow> cs),
        updatedAt := now \<rparr>"

definition findByIdAndUpdate :: "time \<Rightarrow> oid \<Rightarrow> body \<Rightarrow> store \<Rightarrow> error + (task option \<times> store)" where
  "findByIdAndUpdate now i u s =
     (if \<not> validate_update now u then Inl ValidationFailed
      else (case findById s i of
              None \<Rightarrow> Inr (None, s)
            | Some t \<Rightarrow> Inr (Some (apply_update now u t), replace_task (apply_update now u t) s)))"

text \<open>
  \<open>addComment\<close> of the model: push the comment, then \<open>save\<close>. Saving a stored document
  validates its paths, those loaded from the store as well as the modified one, then
  runs the pre-save hooks with \<open>status\<close> unmodified, and writes the document.
\<close>

definition Task_addComment :: "time \<Rightarrow> string option \<Rightarrow> oid \<Rightarrow> task \<Rightarrow> error + task" where
  "Task_addComment now c authorId t =
     (let doc = t\<lparr>comments := comments t @
                   [\<lparr>content = (case c of None \<Rightarrow> [] | Some x \<Rightarrow> x), author = authorId,
                     commentCreatedAt = now\<rparr>]\<rparr> in
      if \<not> validate_task now doc then Inl ValidationFailed
      else case pre_save False now doc of
             Inl e \<Rightarrow> Inl e
           | Inr d \<Rightarrow> Inr (d\<lparr>updatedAt := now\<rparr>))"

section \<open>The task controller\<close>

definition createTask :: "time \<Rightarrow> oid \<Rightarrow> user \<Rightarrow> body \<Rightarrow> store \<Rightarrow> (error + task) \<times> store" where
  "createTask now newId u b s =
     (let assignee = (case b_assignedTo b of Some a \<Rightarrow> a | None \<Rightarrow> user_id u) in
      if b_assignedTo b \<noteq> None \<and> user_id u \<noteq> assignee \<and> role u \<noteq> ''admin''
      then (Inl Forbidden, s)
      else case Task_create now newId assignee (user_id u) b of
             Inl e \<Rightarrow> (Inl e, s)
           | Inr t \<Rightarrow> (Inr t, s @ [t]))"

text \<open>The guard of \<open>getTask\<close> and \<open>addComment\<close>, negated: the caller may read the task.\<close>

definition canView :: "task \<Rightarrow> user \<Rightarrow> bool" where
  "canView t u = (\<not> (role u \<noteq> ''admin'' \<and> assignedTo t \<noteq> user_id u \<and> createdBy t \<noteq> user_id u))"

definition getTask :: "user \<Rightarrow> oid \<Rightarrow> store \<Rightarrow> error + task" where
  "getTask u i s =
     (case findById s i of
        None \<Rightarrow> Inl NotFound
      | Some t \<Rightarrow> if \<not> canView t u then Inl Forbidden else Inr t)"

definition allowedUpdates :: "user \<Rightarrow> string list" where
  "allowedUpdates u =
     [''title'', ''description'', ''status'', ''priority'',
      ''category'', ''dueDate'', ''tags'', ''isArchived'']
     @ (if role u = ''admin'' then [''assignedTo''] else [])"

text \<open>The loop over the keys of the body: a key is copied when the allow-list includes it.\<close>

definition pick :: "string list \<Rightarrow> string \<Rightarrow> 'a option \<Rightarrow> 'a option" where
  "pick allowed key v = (if key \<in> set allowed then v else None)"

definition updates_of :: "string list \<Rightarrow> body \<Rightarrow> body" where
  "updates_of allowed b =
     \<lparr> b_title = pick allowed ''title'' (b_title b),
       b_description = pick allowed ''description'' (b_description b),
       b_status = pick allowed ''status'' (b_status b),
       b_priority = pick allowed ''priority'' (b_priority b),
       b_category = pick allowed ''category'' (b_category b),
       b_dueDate = pick allowed ''dueDate'' (b_dueDate b),
       b_assignedTo = pick allowed ''assignedTo'' (b_assignedTo b),
       b_tags = pick allowed ''tags'' (b_tags b),
       b_isArchived = pick allowed ''isArchived'' (b_isArchived b),
       b_content = pick allowed ''content'' (b_content b),
       b_createdBy = pick allowed ''createdBy'' (b_createdBy b),
       b_completedAt = pick allowed ''completedAt'' (b_completedAt b),
       b_comments = pick allowed ''comments'' (b_comments b),
       b_other = filter (\<lambda>k. k \<in> set allowed) (b_other b) \<rparr>"

definition updateTask :: "time \<Rightarrow> user \<Rightarrow> oid \<Rightarrow> body \<Rightarrow> store \<Rightarrow> (error + task) \<times> store" where
  "updateTask now u i b s =
     (case findById s i of
        None \<Rightarrow> (Inl NotFound, s)
      | Some t \<Rightarrow>
          if \<not> canModify t (user_id u) (role u) then (Inl Forbidden, s)
          else if b_assignedTo b \<noteq> None \<and> role u \<noteq> ''admin'' \<and> Some (assignedTo t) \<noteq> b_assignedTo b
          then (Inl Forbidden, s)
          else (case findByIdAndUpdate now i (updates_of (allowedUpdates u) b) s of
                  Inl e \<Rightarrow> (Inl e, s)
                | Inr (None, s') \<Rightarrow> (Inl NotFound, s')
                | Inr (Some t', s') \<Rightarrow> (Inr t', s')))"

definition deleteTask :: "user \<Rightarrow> oid \<Rightarrow> store \<Rightarrow> (error + unit) \<times> store" where
  "deleteTask u i s =
     (case findById s i of
        None \<Rightarrow> (Inl NotFound, s)
      | Some t \<Rightarrow>
          if \<not> canModify t (user_id u) (role u) then (Inl Forbidden, s)
          else (Inr (), remove_task i s))"

definition addComment :: "time \<Rightarrow> user \<Rightarrow> oid \<Rightarrow> body \<Rightarrow> store \<Rightarrow> (error + task_comment) \<times> store" where
  "addComment now u i b s =
     (case findById s i of
        None \<Rightarrow> (Inl NotFound, s)
      | Some t \<Rightarrow>
          if \<not> canView t u then (Inl Forbidden, s)
          else (case Task_addComment now (b_content b) (user_id u) t of
                  Inl e \<Rightarrow> (Inl e, s)
                | Inr t' \<Rightarrow> (Inr (last (comments t')), replace_task t' s)))"

section \<open>Listing tasks\<close>

subsection \<open>The filter object and the repository's matching\<close>

text \<open>
  The filter handed to \<open>find\<close>, \<open>countDocuments\<close> and \<open>$match\<close> is an object: each key
  holds one condition, and assigning a key again replaces what it held. The keys the
  controller uses are those of this record.
\<close>

datatype clause =
    AssignedToIs oid
  | CreatedByIs oid
  | TitleRegex string
  | DescriptionRegex string
  | CategoryRegex string

datatype status_cond = StatusIs string | StatusNin "string list"

record range =
  r_gte :: "time option"
  r_lt :: "time option"

record task_filter =
  f_or :: "clause list option"
  f_status :: "status_cond option"
  f_priority :: "string option"
  f_category :: "string option"
  f_assignedTo :: "oid option"
  f_createdBy :: "oid option"
  f_isArchived :: "bool option"
  f_dueDate :: "range option"
  f_completedAt :: "range option"

definition no_filter :: task_filter where
  "no_filter = \<lparr> f_or = None, f_status = None, f_priority = None, f_category = None,
     f_assignedTo = None, f_createdBy = None, f_isArchived = None, f_dueDate = None,
     f_completedAt = None \<rparr>"

text \<open>
  A document matches when every key of the filter holds: \<open>$or\<close> when one of its
  clauses does, a range only on a date that is set. The parameter \<open>rx\<close> is the
  repository's \<open>$regex\<close> with option \<open>i\<close>: \<open>rx p s\<close> when pattern \<open>p\<close> matches \<open>s\<close>.
\<close>

fun clause_holds :: "(string \<Rightarrow> string \<Rightarrow> bool) \<Rightarrow> clause \<Rightarrow> task \<Rightarrow> bool" where
  "clause_holds rx (AssignedToIs a) t = (assignedTo t = a)"
| "clause_holds rx (CreatedByIs c) t = (createdBy t = c)"
| "clause_holds rx (TitleRegex p) t = rx p (title t)"
| "clause_holds rx (DescriptionRegex p) t = (case description t of None \<Rightarrow> False | Some d \<Rightarrow> rx p d)"
| "clause_holds rx (CategoryRegex p) t = rx p (category t)"

fun status_holds :: "status_cond \<Rightarrow> task \<Rightarrow> bool" where
  "status_holds (StatusIs v) t = (status t = v)"
| "status_holds (StatusNin vs) t = (status t \<notin> set vs)"

definition in_range :: "range \<Rightarrow> time option \<Rightarrow> bool" where
  "in_range r v =
     (case v of
        None \<Rightarrow> False
      | Some x \<Rightarrow> (case r_gte r of None \<Rightarrow> True | Some lo \<Rightarrow> lo \<le> x) \<and>
                  (case r_lt r of None \<Rightarrow> True | Some hi \<Rightarrow> x < hi))"

definition matches :: "(string \<Rightarrow> string \<Rightarrow> bool) \<Rightarrow> task_filter \<Rightarrow> task \<Rightarrow> bool" where
  "matches rx f t =
     ((case f_or f of None \<Rightarrow> True | Some cs \<Rightarrow> list_ex (\<lambda>c. clause_holds rx c t) cs) \<and>
      (case f_status f of None \<Rightarrow> True | Some c \<Rightarrow> status_holds c t) \<and>
      (case f_priority f of None \<Rightarrow> True | Some v \<Rightarrow> priority t = v) \<and>
      (case f_category f of None \<Rightarrow> True | Some v \<Rightarrow> category t = v) \<and>
      (case f_assignedTo f of None \<Rightarrow> True | Some v \<Rightarrow> assignedTo t = v) \<and>
      (case f_createdBy f of None \<Rightarrow> True | Some v \<Rightarrow> createdBy t = v) \<and>
      (case f_isArchived f of None \<Rightarrow> True | Some v \<Rightarrow> isArchived t = v) \<and>
      (case f_dueDate f of None \<Rightarrow> True | Some r \<Rightarrow> in_range r (dueDate t)) \<and>
      (case f_completedAt f of None \<Rightarrow> True | Some r \<Rightarrow> in_range r (completedAt t)))"

definition Task_find :: "(string \<Rightarrow> string \<Rightarrow> bool) \<Rightarrow> task_filter \<Rightarrow> store \<Rightarrow> task list" where
  "Task_find rx f s = filter (matches rx f) s"

definition countDocuments :: "(string \<Rightarrow> string \<Rightarrow> bool) \<Rightarrow> task_filter \<Rightarrow> store \<Rightarrow> nat" where
  "countDocuments rx f s = length (filter (matches rx f) s)"

text \<open>
  Sorting: the parameter \<open>ord\<close> is the repository's order on the values of a named
  field, \<open>ord field a b\<close> when \<open>a\<close> may stand before \<open>b\<close> in ascending order.
\<close>

fun insert_by :: "('a \<Rightarrow> 'a \<Rightarrow> bool) \<Rightarrow> 'a \<Rightarrow> 'a list \<Rightarrow> 'a list" where
  "insert_by le x [] = [x]"
| "insert_by le x (y # ys) = (if le x y then x # y # ys else y # insert_by le x ys)"

definition sort_by :: "('a \<Rightarrow> 'a \<Rightarrow> bool) \<Rightarrow> 'a list \<Rightarrow> 'a list" where
  "sort_by le xs = foldr (insert_by le) xs []"

subsection \<open>The query parameters and \<open>getTasks\<close>\<close>

text \<open>
  \<open>req.query\<close>. The route validates the pagination parameters before the controller
  runs; \<open>q_page\<close> and \<open>q_limit\<close> hold what \<open>parseInt\<close> gives for them, \<open>None\<close> when the
  parameter is absent or not a number. The other parameters are absent or strings,
  the two ids already in the form of the ids they are compared with.
\<close>

record query =
  q_page :: "nat option"
  q_limit :: "nat option"
  q_status :: "string option"
  q_priority :: "string option"
  q_category :: "string option"
  q_assignedTo :: "oid option"
  q_createdBy :: "oid option"
  q_isArchived :: "string option"
  q_dueDate :: "string option"
  q_search :: "string option"
  q_sortBy :: "string option"

text \<open>A string parameter passes \<open>if (req.query.x)\<close> when it is present and not empty.\<close>

definition given :: "string option \<Rightarrow> bool" where
  "given v = (case v of None \<Rightarrow> False | Some x \<Rightarrow> x \<noteq> [])"

definition ownership_scope :: "user \<Rightarrow> task_filter" where
  "ownership_scope u =
     (if role u \<noteq> ''admin''
      then no_filter\<lparr>f_or := Some [AssignedToIs (user_id u), CreatedByIs (user_id u)]\<rparr>
      else no_filter)"

definition ms_per_day :: int where
  "ms_per_day = 86400000"

text \<open>
  The filter of \<open>getTasks\<close>, statement by statement. The day after \<open>today\<close> is taken a
  fixed 24 hours later (a zone without clock changes).
\<close>

definition getTasks_filter :: "time \<Rightarrow> user \<Rightarrow> query \<Rightarrow> task_filter" where
  "getTasks_filter now u q =
     (let filter0 = ownership_scope u;
          filter1 = (if given (q_status q)
                     then filter0\<lparr>f_status := map_option StatusIs (q_status q)\<rparr> else filter0);
          filter2 = (if given (q_priority q)
                     then filter1\<lparr>f_priority := q_priority q\<rparr> else filter1);
          filter3 = (if given (q_category q)
                     then filter2\<lparr>f_category := q_category q\<rparr> else filter2);
          filter4 = (if q_assignedTo q \<noteq> None
                     then filter3\<lparr>f_assignedTo := q_assignedTo q\<rparr> else filter3);
          filter5 = (if q_createdBy q \<noteq> None
                     then filter4\<lparr>f_createdBy := q_createdBy q\<rparr> else filter4);
          filter6 = (case q_isArchived q of
                       None \<Rightarrow> filter5
                     | Some v \<Rightarrow> filter5\<lparr>f_isArchived := Some (v = ''true'')\<rparr>);
          filter7 = (if given (q_dueDate q) then
                       (if q_dueDate q = Some ''overdue'' then
                          filter6\<lparr>f_dueDate := Some \<lparr>r_gte = None, r_lt = Some now\<rparr>,
                                  f_status := Some (StatusNin [''completed'', ''cancelled''])\<rparr>
                        else if q_dueDate q = Some ''today'' then
                          filter6\<lparr>f_dueDate := Some \<lparr>r_gte = Some now, r_lt = Some (now + ms_per_day)\<rparr>\<rparr>
                        else filter6)
                     else filter6)
      in (case q_search q of
            None \<Rightarrow> filter7
          | Some x \<Rightarrow> if x = [] then filter7
                      else filter7\<lparr>f_or := Some [TitleRegex x, DescriptionRegex x, CategoryRegex x]\<rparr>))"

fun split_on :: "char \<Rightarrow> string \<Rightarrow> string list" where
  "split_on c [] = [[]]"
| "split_on c (x # xs) =
     (if x = c then [] # split_on c xs
      else (case split_on c xs of [] \<Rightarrow> [[x]] | p # ps \<Rightarrow> (x # p) # ps))"

text \<open>The sort key and whether it is descending: \<open>createdAt\<close>, newest first, by default.\<close>

definition sort_of :: "query \<Rightarrow> string \<times> bool" where
  "sort_of q =
     (case q_sortBy q of
        None \<Rightarrow> (''createdAt'', True)
      | Some x \<Rightarrow>
          if x = [] then (''createdAt'', True)
          else (case split_on CHR '':'' x of
                  [] \<Rightarrow> ([], False)
                | [field] \<Rightarrow> (field, False)
                | field # dir # _ \<Rightarrow> (field, dir = ''desc'')))"

definition page_of :: "query \<Rightarrow> nat" where
  "page_of q = (case q_page q of None \<Rightarrow> 1 | Some n \<Rightarrow> if n = 0 then 1 else n)"

definition limit_of :: "query \<Rightarrow> nat" where
  "limit_of q = (case q_limit q of None \<Rightarrow> 10 | Some n \<Rightarrow> if n = 0 then 10 else n)"

record task_list =
  r_tasks :: "task list"
  r_current :: nat
  r_pages :: nat
  r_total :: nat
  r_limit :: nat

definition sorted_matches ::
  "(string \<Rightarrow> string \<Rightarrow> bool) \<Rightarrow> (string \<Rightarrow> task \<Rightarrow> task \<Rightarrow> bool) \<Rightarrow> task_filter \<Rightarrow> string \<times> bool \<Rightarrow>
   store \<Rightarrow> task list" where
  "sorted_matches rx ord f sortBy s =
     sort_by (if snd sortBy then (\<lambda>a b. ord (fst sortBy) b a) else ord (fst sortBy)) (Task_find rx f s)"

definition getTasks ::
  "(string \<Rightarrow> string \<Rightarrow> bool) \<Rightarrow> (string \<Rightarrow> task \<Rightarrow> task \<Rightarrow> bool) \<Rightarrow> time \<Rightarrow> user \<Rightarrow> query \<Rightarrow>
   store \<Rightarrow> task_list" where
  "getTasks rx ord now u q s =
     (let page = page_of q;
          limit = limit_of q;
          skip = (page - 1) * limit;
          filter = getTasks_filter now u q;
          tasks = take limit (drop skip (sorted_matches rx ord filter (sort_of q) s));
          total = countDocuments rx filter s
      in \<lparr> r_tasks = tasks, r_current = page,
           r_pages = nat \<lceil>real total / real limit\<rceil>, r_total = total, r_limit = limit \<rparr>)"

section \<open>Statistics\<close>

subsection \<open>The calendar of \<open>Date\<close>\<close>

text \<open>
  \<open>getFullYear\<close>, \<open>getMonth\<close> and \<open>new Date(year, month, 1)\<close> follow the algorithms of
  the language standard for dates, in the zone of the server, here a fixed offset \<open>tz\<close>
  from UTC in milliseconds. Days are numbered from the epoch, months from 0.
\<close>

definition Day :: "time \<Rightarrow> int" where
  "Day t = t div ms_per_day"

definition DaysInYear :: "int \<Rightarrow> int" where
  "DaysInYear y =
     (if y mod 4 \<noteq> 0 then 365
      else if y mod 100 \<noteq> 0 then 366
      else if y mod 400 \<noteq> 0 then 365
      else 366)"

definition DayFromYear :: "int \<Rightarrow> int" where
  "DayFromYear y =
     365 * (y - 1970) + (y - 1969) div 4 - (y - 1901) div 100 + (y - 1601) div 400"

text \<open>
  The year of a day is the largest year whose first day is not after it. It is found by
  stepping up from a year that is not too late.
\<close>

function year_from :: "int \<Rightarrow> int \<Rightarrow> int" where
  "year_from y z = (if DayFromYear (y + 1) \<le> z then year_from (y + 1) z else y)"
  by pat_completeness auto
termination
proof (relation "measure (\<lambda>(y, z). nat (z - DayFromYear y))")
  show "wf (measure (\<lambda>(y, z). nat (z - DayFromYear y)))" by simp
next
  fix y z :: int
  assume le: "DayFromYear (y + 1) \<le> z"
  have up: "x div k \<le> (x + 1) div k" if "0 < k" for x k :: int
    by (rule zdiv_mono1) (use that in simp_all)
  have dn: "(x + 1) div k \<le> x div k + 1" if "0 < k" for x k :: int
  proof -
    have "(x + 1) div k \<le> (x + k) div k" by (rule zdiv_mono1) (use that in simp_all)
    also have "\<dots> = x div k + 1" using that by simp
    finally show ?thesis .
  qed
  define A where "A = (y - 1969) div 4"
  define B where "B = (y - 1901) div 100"
  define C where "C = (y - 1601) div 400"
  define A' where "A' = (y - 1969 + 1) div 4"
  define B' where "B' = (y - 1901 + 1) div 100"
  define C' where "C' = (y - 1601 + 1) div 400"
  have steps: "A \<le> A'" "B' \<le> B + 1" "C \<le> C'"
    unfolding A_def B_def C_def A'_def B'_def C'_def by (rule up dn, simp)+
  have e: "y + 1 - 1970 = y - 1969" "y + 1 - 1969 = y - 1969 + 1" "y + 1 - 1901 = y - 1901 + 1"
    "y + 1 - 1601 = y - 1601 + 1" by simp_all
  have "DayFromYear (y + 1) = 365 * (y - 1969) + A' - B' + C'"
    by (simp only: DayFromYear_def e A'_def B'_def C'_def)
  moreover have "DayFromYear y = 365 * (y - 1970) + A - B + C"
    by (simp only: DayFromYear_def A_def B_def C_def)
  ultimately have "DayFromYear y < DayFromYear (y + 1)" using steps by simp
  with le show "((y + 1, z), (y, z)) \<in> measure (\<lambda>(y, z). nat (z - DayFromYear y))" by simp
qed

declare year_from.simps [simp del]

definition YearFromDay :: "int \<Rightarrow> int" where
  "YearFromDay z = year_from (1970 + (if 0 \<le> z then z div 366 else z div 365 - 1)) z"

definition DayWithinYear :: "int \<Rightarrow> int" where
  "DayWithinYear z = z - DayFromYear (YearFromDay z)"

definition InLeapYear :: "int \<Rightarrow> int" where
  "InLeapYear z = (if DaysInYear (YearFromDay z) = 365 then 0 else 1)"

definition month_of_day :: "int \<Rightarrow> int \<Rightarrow> int" where
  "month_of_day leap d =
     (if d < 31 then 0
      else if d < 59 + leap then 1
      else if d < 90 + leap then 2
      else if d < 120 + leap then 3
      else if d < 151 + leap then 4
      else if d < 181 + leap then 5
      else if d < 212 + leap then 6
      else if d < 243 + leap then 7
      else if d < 273 + leap then 8
      else if d < 304 + leap then 9
      else if d < 334 + leap then 10
      else 11)"

definition MonthFromDay :: "int \<Rightarrow> int" where
  "MonthFromDay z = month_of_day (InLeapYear z) (DayWithinYear z)"

text \<open>
  The day number of the first of a month; a month of 12 or more is carried into the
  following years.
\<close>

definition first_of_month :: "int \<Rightarrow> int \<Rightarrow> int" where
  "first_of_month leap mn =
     (if mn = 0 then 0
      else if mn = 1 then 31
      else if mn = 2 then 59 + leap
      else if mn = 3 then 90 + leap
      else if mn = 4 then 120 + leap
      else if mn = 5 then 151 + leap
      else if mn = 6 then 181 + leap
      else if mn = 7 then 212 + leap
      else if mn = 8 then 243 + leap
      else if mn = 9 then 273 + leap
      else if mn = 10 then 304 + leap
      else 334 + leap)"

definition MakeDay :: "int \<Rightarrow> int \<Rightarrow> int \<Rightarrow> int" where
  "MakeDay year month dt =
     (let ym = year + month div 12;
          mn = month mod 12
      in DayFromYear ym + first_of_month (if DaysInYear ym = 365 then 0 else 1) mn + dt - 1)"

text \<open>The end of a month within its year: the first of the next, or the end of the year.\<close>

definition next_first :: "int \<Rightarrow> int \<Rightarrow> int" where
  "next_first leap m = (if m = 11 then 365 + leap else first_of_month leap (m + 1))"

text \<open>The constructor reads a year from 0 to 99 as a year of the twentieth century.\<close>

definition MakeFullYear :: "int \<Rightarrow> int" where
  "MakeFullYear year = (if 0 \<le> year \<and> year \<le> 99 then 1900 + year else year)"

definition getFullYear :: "int \<Rightarrow> time \<Rightarrow> int" where
  "getFullYear tz t = YearFromDay (Day (t + tz))"

definition getMonth :: "int \<Rightarrow> time \<Rightarrow> int" where
  "getMonth tz t = MonthFromDay (Day (t + tz))"

definition Date_first :: "int \<Rightarrow> int \<Rightarrow> int \<Rightarrow> time" where
  "Date_first tz year month = MakeDay (MakeFullYear year) month 1 * ms_per_day - tz"

subsection \<open>\<open>getTaskStats\<close>\<close>

text \<open>\<open>$group\<close> by a field with \<open>$sum: 1\<close>: one entry for each value that occurs.\<close>

definition group_count :: "(task \<Rightarrow> string) \<Rightarrow> task list \<Rightarrow> (string \<times> nat) list" where
  "group_count key ts =
     map (\<lambda>k. (k, length (filter (\<lambda>t. key t = k) ts))) (remdups (map key ts))"

record task_stats =
  statusStats :: "(string \<times> nat) list"
  priorityStats :: "(string \<times> nat) list"
  overdueTasks :: nat
  completedThisMonth :: nat

definition getTaskStats ::
  "(string \<Rightarrow> string \<Rightarrow> bool) \<Rightarrow> int \<Rightarrow> time \<Rightarrow> user \<Rightarrow> store \<Rightarrow> task_stats" where
  "getTaskStats rx tz now u s =
     (let matchQuery = ownership_scope u in
      \<lparr> statusStats =
          group_count status (Task_find rx (matchQuery\<lparr>f_isArchived := Some False\<rparr>) s),
        priorityStats =
          group_count priority (Task_find rx (matchQuery\<lparr>f_isArchived := Some False\<rparr>) s),
        overdueTasks =
          countDocuments rx
            (matchQuery\<lparr>f_dueDate := Some \<lparr>r_gte = None, r_lt = Some now\<rparr>,
                        f_status := Some (StatusNin [''completed'', ''cancelled'']),
                        f_isArchived := Some False\<rparr>) s,
        completedThisMonth =
          countDocuments rx
            (matchQuery\<lparr>f_status := Some (StatusIs ''completed''),
                        f_completedAt :=
                          Some \<lparr>r_gte = Some (Date_first tz (getFullYear tz now) (getMonth tz now)),
                                r_lt = Some (Date_first tz (getFullYear tz now) (getMonth tz now + 1))\<rparr>\<rparr>) s \<rparr>)"

section \<open>Authentication\<close>

datatype auth_error =
  MissingAuth | MalformedAuth | InvalidToken | UnknownSubject | Deactivated | StaleCredential

text \<open>The payload of a verified token.\<close>

record claims =
  c_id :: oid
  c_username :: string
  c_role :: string
  c_iat :: time

definition extractToken :: "string option \<Rightarrow> auth_error + string" where
  "extractToken authHeader =
     (case authHeader of
        None \<Rightarrow> Inl MissingAuth
      | Some h \<Rightarrow>
          if h = [] then Inl MissingAuth
          else if take 7 h \<noteq> ''Bearer '' then Inl MalformedAuth
          else if drop 7 h = [] then Inl MalformedAuth
          else Inr (drop 7 h))"

text \<open>
  The parameter \<open>jwt\<close> is the library's \<open>verify\<close> under the server's secret, issuer and
  audience at the time of the request: the payload, or \<open>None\<close> where it throws.
\<close>

definition verifyToken :: "(string \<Rightarrow> claims option) \<Rightarrow> string \<Rightarrow> auth_error + claims" where
  "verifyToken jwt token = (case jwt token of None \<Rightarrow> Inl InvalidToken | Some c \<Rightarrow> Inr c)"

text \<open>
  Modelled from the spec: \<open>changedPasswordAfter\<close> of the User model, which is not among
  the sources. The spec compares the token's issue time with the watermark and rejects
  a token issued strictly before it; an identity without a watermark rejects none.
\<close>

definition changedPasswordAfter :: "user \<Rightarrow> time \<Rightarrow> bool" where
  "changedPasswordAfter u iat =
     (case passwordChangedAt u of None \<Rightarrow> False | Some w \<Rightarrow> iat < w)"

definition User_findById :: "user list \<Rightarrow> oid \<Rightarrow> user option" where
  "User_findById us i = find (\<lambda>u. user_id u = i) us"

fun replace_user :: "user \<Rightarrow> user list \<Rightarrow> user list" where
  "replace_user u' [] = []"
| "replace_user u' (u # us) = (if user_id u = user_id u' then u' # us else u # replace_user u' us)"

definition authenticate ::
  "(string \<Rightarrow> claims option) \<Rightarrow> time \<Rightarrow> string option \<Rightarrow> user list \<Rightarrow> (auth_error + user) \<times> user list" where
  "authenticate jwt now authHeader us =
     (case extractToken authHeader of
        Inl e \<Rightarrow> (Inl e, us)
      | Inr token \<Rightarrow>
          (case verifyToken jwt token of
             Inl e \<Rightarrow> (Inl e, us)
           | Inr decoded \<Rightarrow>
               (case User_findById us (c_id decoded) of
                  None \<Rightarrow> (Inl UnknownSubject, us)
                | Some u \<Rightarrow>
                    if \<not> isActive u then (Inl Deactivated, us)
                    else if changedPasswordAfter u (c_iat decoded) then (Inl StaleCredential, us)
                    else (Inr (u\<lparr>lastLogin := Some now\<rparr>),
                          replace_user (u\<lparr>lastLogin := Some now\<rparr>) us))))"

section \<open>Sample data\<close>

text \<open>
  Callers, tasks and requests for the concrete evaluations below. For them the regular
  expression is a plain word, which \<open>$regex\<close> with option \<open>i\<close> finds anywhere in the
  subject whatever the case of the letters.
\<close>

definition lower :: "char \<Rightarrow> char" where
  "lower c =
     (case map_of (zip ''ABCDEFGHIJKLMNOPQRSTUVWXYZ'' ''abcdefghijklmnopqrstuvwxyz'') c of
        None \<Rightarrow> c
      | Some d \<Rightarrow> d)"

fun contains :: "string \<Rightarrow> string \<Rightarrow> bool" where
  "contains p [] = (p = [])"
| "contains p (x # xs) = (take (length p) (x # xs) = p \<or> contains p xs)"

definition word_regex :: "string \<Rightarrow> string \<Rightarrow> bool" where
  "word_regex p s = contains (map lower p) (map lower s)"

definition by_field :: "string \<Rightarrow> task \<Rightarrow> task \<Rightarrow> bool" where
  "by_field f a b = (if f = ''createdAt'' then createdAt a \<le> createdAt b else True)"

definition root :: user where
  "root = \<lparr> user_id = 1, role = ''admin'', isActive = True, passwordChangedAt = None,
            lastLogin = None \<rparr>"

definition alice :: user where
  "alice = \<lparr> user_id = 2, role = ''user'', isActive = True, passwordChangedAt = None,
             lastLogin = None \<rparr>"

definition bob :: user where
  "bob = \<lparr> user_id = 3, role = ''user'', isActive = True, passwordChangedAt = Some 5000,
           lastLogin = None \<rparr>"

definition report_task :: task where
  "report_task =
     \<lparr> task_id = 10, title = ''Quarterly report'', description = None, status = ''pending'',
       priority = ''medium'', category = ''general'', dueDate = None, completedAt = None,
       assignedTo = 2, createdBy = 2, tags = [], attachments = [], comments = [],
       isArchived = False, createdAt = 100, updatedAt = 100 \<rparr>"

definition empty_body :: body where
  "empty_body =
     \<lparr> b_title = None, b_description = None, b_status = None, b_priority = None,
       b_category = None, b_dueDate = None, b_assignedTo = None, b_tags = None,
       b_isArchived = None, b_content = None, b_createdBy = None, b_completedAt = None,
       b_comments = None, b_other = [] \<rparr>"

definition empty_query :: query where
  "empty_query =
     \<lparr> q_page = None, q_limit = None, q_status = None, q_priority = None, q_category = None,
       q_assignedTo = None, q_createdBy = None, q_isArchived = None, q_dueDate = None,
       q_search = None, q_sortBy = None \<rparr>"

definition invoice_task :: task where
  "invoice_task =
     \<lparr> task_id = 11, title = ''Pay invoice'', description = None, status = ''pending'',
       priority = ''medium'', category = ''general'', dueDate = Some 500, completedAt = None,
       assignedTo = 2, createdBy = 2, tags = [], attachments = [], comments = [],
       isArchived = False, createdAt = 100, updatedAt = 100 \<rparr>"

definition plan_body :: body where
  "plan_body = empty_body\<lparr>b_title := Some ''Plan'', b_assignedTo := Some 3\<rparr>"

definition ask_body :: body where
  "ask_body = empty_body\<lparr>b_content := Some ''paid?''\<rparr>"

definition rename_body :: body where
  "rename_body = empty_body\<lparr>b_title := Some ''Annual report''\<rparr>"

definition renamed_task :: task where
  "renamed_task = report_task\<lparr>title := ''Annual report'', updatedAt := 200\<rparr>"

definition stray_body :: body where
  "stray_body =
     rename_body\<lparr>b_assignedTo := Some 2, b_createdBy := Some 3,
                 b_completedAt := Some (Some 1), b_other := [''_id'', ''$set'']\<rparr>"

definition complete_body :: body where
  "complete_body = empty_body\<lparr>b_status := Some ''completed''\<rparr>"

definition done_task :: task where
  "done_task = report_task\<lparr>status := ''completed'', updatedAt := 200\<rparr>"

text \<open>A body without the keys that no update accepts.\<close>

definition strip_unlisted :: "body \<Rightarrow> body" where
  "strip_unlisted b =
     b\<lparr>b_content := None, b_createdBy := None, b_completedAt := None, b_comments := None,
       b_other := []\<rparr>"

definition late_task :: task where
  "late_task =
     \<lparr> task_id = 12, title = ''Renew licence'', description = Some ''before the audit'',
       status = ''in-progress'', priority = ''high'', category = ''legal'', dueDate = Some 500,
       completedAt = None, assignedTo = 2, createdBy = 1, tags = [], attachments = [],
       comments = [], isArchived = False, createdAt = 300, updatedAt = 300 \<rparr>"

definition search_query :: query where
  "search_query = empty_query\<lparr>q_search := Some ''REPORT''\<rparr>"

definition pending_query :: query where
  "pending_query = empty_query\<lparr>q_status := Some ''pending''\<rparr>"

definition pending_overdue_query :: query where
  "pending_overdue_query = empty_query\<lparr>q_status := Some ''pending'', q_dueDate := Some ''overdue''\<rparr>"

definition two_per_page :: query where
  "two_per_page = empty_query\<lparr>q_limit := Some 2\<rparr>"

definition three_tasks :: store where
  "three_tasks = [report_task, invoice_task, late_task]"

text \<open>
  The statements of \<open>getTasks\<close> that extend the filter, one function for each; the
  filter of \<open>getTasks\<close> is their composition in the order of the source.
\<close>

definition with_status :: "query \<Rightarrow> task_filter \<Rightarrow> task_filter" where
  "with_status q f = (if given (q_status q) then f\<lparr>f_status := map_option StatusIs (q_status q)\<rparr> else f)"

definition with_priority :: "query \<Rightarrow> task_filter \<Rightarrow> task_filter" where
  "with_priority q f = (if given (q_priority q) then f\<lparr>f_priority := q_priority q\<rparr> else f)"

definition with_category :: "query \<Rightarrow> task_filter \<Rightarrow> task_filter" where
  "with_category q f = (if given (q_category q) then f\<lparr>f_category := q_category q\<rparr> else f)"

definition with_assignedTo :: "query \<Rightarrow> task_filter \<Rightarrow> task_filter" where
  "with_assignedTo q f = (if q_assignedTo q \<noteq> None then f\<lparr>f_assignedTo := q_assignedTo q\<rparr> else f)"

definition with_createdBy :: "query \<Rightarrow> task_filter \<Rightarrow> task_filter" where
  "with_createdBy q f = (if q_createdBy q \<noteq> None then f\<lparr>f_createdBy := q_createdBy q\<rparr> else f)"

definition with_isArchived :: "query \<Rightarrow> task_filter \<Rightarrow> task_filter" where
  "with_isArchived q f =
     (case q_isArchived q of None \<Rightarrow> f | Some v \<Rightarrow> f\<lparr>f_isArchived := Some (v = ''true'')\<rparr>)"

definition with_dueDate :: "time \<Rightarrow> query \<Rightarrow> task_filter \<Rightarrow> task_filter" where
  "with_dueDate now q f =
     (if given (q_dueDate q) then
        (if q_dueDate q = Some ''overdue'' then
           f\<lparr>f_dueDate := Some \<lparr>r_gte = None, r_lt = Some now\<rparr>,
             f_status := Some (StatusNin [''completed'', ''cancelled''])\<rparr>
         else if q_dueDate q = Some ''today'' then
           f\<lparr>f_dueDate := Some \<lparr>r_gte = Some now, r_lt = Some (now + ms_per_day)\<rparr>\<rparr>
         else f)
      else f)"

definition with_search :: "query \<Rightarrow> task_filter \<Rightarrow> task_filter" where
  "with_search q f =
     (case q_search q of
        None \<Rightarrow> f
      | Some x \<Rightarrow> if x = [] then f
                  else f\<lparr>f_or := Some [TitleRegex x, DescriptionRegex x, CategoryRegex x]\<rparr>)"

definition noon_5_march :: time where
  "noon_5_march = 1709640000000"

definition february_task :: task where
  "february_task = report_task\<lparr>task_id := 13, status := ''completed'', completedAt := Some 1708430400000\<rparr>"

definition march_task :: task where
  "march_task = report_task\<lparr>task_id := 14, status := ''completed'', completedAt := Some 1709380800000,
     isArchived := True\<rparr>"

definition old_claims :: claims where
  "old_claims = \<lparr> c_id = 3, c_username = ''bob'', c_role = ''user'', c_iat = 4000 \<rparr>"

definition new_claims :: claims where
  "new_claims = \<lparr> c_id = 3, c_username = ''bob'', c_role = ''user'', c_iat = 5000 \<rparr>"

definition sample_jwt :: "string \<Rightarrow> claims option" where
  "sample_jwt token =
     (if token = ''old'' then Some old_claims
      else if token = ''new'' then Some new_claims
      else None)"

section \<open>Properties of the repository operations\<close>

lemma findById_id: "findById s i = Some t \<Longrightarrow> task_id t = i"
  unfolding findById_def by (induction s) (auto split: if_splits)

lemma findById_replace_same:
  "findById s i = Some t \<Longrightarrow> task_id t' = i \<Longrightarrow> findById (replace_task t' s) i = Some t'"
  unfolding findById_def by (induction s) (auto split: if_splits)

lemma findById_replace_other:
  "j \<noteq> task_id t' \<Longrightarrow> findById (replace_task t' s) j = findById s j"
  unfolding findById_def by (induction s) (auto split: if_splits)

lemma sample_lookup: "findById [report_task] 10 = Some report_task"
  by (simp add: findById_def report_task_def)

section \<open>Access control\<close>

text \<open>
  C6. For a caller who is not an administrator the decision to modify a task holds
  exactly when the caller is its assignee or its creator, and for an administrator it
  always holds. Reading a single task is decided by the same predicate: \<open>getTask\<close>
  returns the task exactly when \<open>canModify\<close> holds and answers Forbidden exactly when it
  does not, and then update and delete answer Forbidden too and leave the store as it is.
\<close>

theorem ownership_gate:
  "findById s i = Some t \<Longrightarrow>
     (role u = ''admin'' \<longrightarrow> canModify t (user_id u) (role u)) \<and>
     (role u \<noteq> ''admin'' \<longrightarrow>
        canModify t (user_id u) (role u) = (assignedTo t = user_id u \<or> createdBy t = user_id u)) \<and>
     canView t u = canModify t (user_id u) (role u) \<and>
     (getTask u i s = Inr t) = canModify t (user_id u) (role u) \<and>
     (getTask u i s = Inl Forbidden) = (\<not> canModify t (user_id u) (role u)) \<and>
     (\<not> canModify t (user_id u) (role u) \<longrightarrow>
        updateTask now u i b s = (Inl Forbidden, s) \<and> deleteTask u i s = (Inl Forbidden, s))"
  by (auto simp: canModify_def canView_def getTask_def updateTask_def deleteTask_def)

theorem ownership_gate_witness:
  "findById [report_task] 10 = Some report_task \<and>
   role bob \<noteq> ''admin'' \<and>
   \<not> canModify report_task (user_id bob) (role bob) \<and>
   \<not> canView report_task bob \<and>
   getTask bob 10 [report_task] = Inl Forbidden \<and>
   updateTask 200 bob 10 empty_body [report_task] = (Inl Forbidden, [report_task]) \<and>
   deleteTask bob 10 [report_task] = (Inl Forbidden, [report_task])"
proof -
  have a: "role bob \<noteq> ''admin''" by (simp add: bob_def)
  have b: "\<not> (assignedTo report_task = user_id bob \<or> createdBy report_task = user_id bob)"
    by (simp add: bob_def report_task_def)
  from ownership_gate [OF sample_lookup, of bob 200 empty_body] a b sample_lookup
  show ?thesis by blast
qed

text \<open>
  C3. A caller who is not an administrator and names an assignee other than themselves
  when creating a task, or other than the task's current assignee when updating it, is
  answered Forbidden, and the store is what it was: nothing was written.
\<close>

theorem reassign_forbidden:
  "role u \<noteq> ''admin'' \<Longrightarrow> b_assignedTo b = Some a \<Longrightarrow>
     (a \<noteq> user_id u \<longrightarrow> createTask now newId u b s = (Inl Forbidden, s)) \<and>
     (findById s i = Some t \<and> a \<noteq> assignedTo t \<longrightarrow> updateTask now u i b s = (Inl Forbidden, s))"
  by (auto simp: createTask_def updateTask_def)

theorem reassign_forbidden_witness:
  "role alice \<noteq> ''admin'' \<and> b_assignedTo plan_body = Some 3 \<and>
   createTask 200 11 alice plan_body [report_task] = (Inl Forbidden, [report_task]) \<and>
   updateTask 200 alice 10 plan_body [report_task] = (Inl Forbidden, [report_task])"
proof -
  have h1: "role alice \<noteq> ''admin''" by (simp add: alice_def)
  have h2: "b_assignedTo plan_body = Some 3" by (simp add: plan_body_def)
  have a: "(3::nat) \<noteq> user_id alice" by (simp add: alice_def)
  have b: "(3::nat) \<noteq> assignedTo report_task" by (simp add: report_task_def)
  from reassign_forbidden [OF h1 h2, of 200 11 "[report_task]" 10 report_task] a b sample_lookup h1 h2
  show ?thesis by blast
qed

section \<open>Comments on a task past its due date\<close>

text \<open>
  The task of the example is a legitimate one: it was created before its due date.
\<close>

lemma invoice_created:
  "createTask 100 11 alice (empty_body\<lparr>b_title := Some ''Pay invoice'', b_dueDate := Some (Some 500)\<rparr>) []
     = (Inr invoice_task, [invoice_task])"
  by (simp add: createTask_def Task_create_def new_task_def validate_task_def pre_save_def
      pre_save_dueDate_def pre_save_completedAt_def Let_def empty_body_def alice_def invoice_task_def
      valid_title_def valid_description_def valid_status_def valid_priority_def valid_category_def
      valid_dueDate_def valid_tags_def status_values_def priority_values_def trim_def is_space_def)

text \<open>
  The second pre-save hook fails on every document whose due date is not after the
  clock, whatever else the save changes.
\<close>

lemma pre_save_rejects_past_due:
  "dueDate t = Some d \<Longrightarrow> d \<le> now \<Longrightarrow> pre_save m now t = Inl DueDateNotFuture"
  by (simp add: pre_save_def pre_save_dueDate_def pre_save_completedAt_def)

text \<open>
  C10. When the due date of a stored task is set and not after the clock, \<open>addComment\<close>
  fails and the store, hence the task's list of comments, is unchanged. For a caller who
  may read the task the failure is that of the validation of the due date, which the
  save runs before its hooks; for any other caller it is Forbidden.
\<close>

theorem addComment_past_due:
  "findById s i = Some t \<Longrightarrow> dueDate t = Some d \<Longrightarrow> d \<le> now \<Longrightarrow>
     (\<exists>e. addComment now u i b s = (Inl e, s)) \<and>
     addComment now u i b s = (Inl (if canView t u then ValidationFailed else Forbidden), s)"
  by (simp add: addComment_def Task_addComment_def validate_task_def valid_dueDate_def Let_def)

theorem addComment_past_due_witness:
  "findById [invoice_task] 11 = Some invoice_task \<and> dueDate invoice_task = Some 500 \<and> (500::int) \<le> 1000 \<and>
   canView invoice_task alice \<and>
   addComment 1000 alice 11 ask_body [invoice_task] = (Inl ValidationFailed, [invoice_task])"
proof -
  have h1: "findById [invoice_task] 11 = Some invoice_task"
    by (simp add: findById_def invoice_task_def)
  have h2: "dueDate invoice_task = Some 500" by (simp add: invoice_task_def)
  have h3: "(500::int) \<le> 1000" by simp
  have a: "canView invoice_task alice" by (simp add: canView_def alice_def invoice_task_def)
  from addComment_past_due [OF h1 h2 h3, of alice ask_body] a
  have "addComment 1000 alice 11 ask_body [invoice_task] = (Inl ValidationFailed, [invoice_task])"
    by simp
  with h1 h2 h3 a show ?thesis by blast
qed

section \<open>Updates\<close>

subsection \<open>What the allow-list lets through\<close>

lemma pick_outside:
  "pick (allowedUpdates u) ''content'' v = None"
  "pick (allowedUpdates u) ''createdBy'' w = None"
  "pick (allowedUpdates u) ''completedAt'' x = None"
  "pick (allowedUpdates u) ''comments'' y = None"
  by (simp_all add: pick_def allowedUpdates_def)

lemma pick_assignedTo:
  "pick (allowedUpdates u) ''assignedTo'' v = (if role u = ''admin'' then v else None)"
  by (simp add: pick_def allowedUpdates_def)

lemma pick_inside:
  "pick (allowedUpdates u) ''title'' a = a"
  "pick (allowedUpdates u) ''description'' a = a"
  "pick (allowedUpdates u) ''status'' a = a"
  "pick (allowedUpdates u) ''priority'' a = a"
  "pick (allowedUpdates u) ''category'' a = a"
  "pick (allowedUpdates u) ''dueDate'' d = d"
  "pick (allowedUpdates u) ''tags'' ts = ts"
  "pick (allowedUpdates u) ''isArchived'' ar = ar"
  by (simp_all add: pick_def allowedUpdates_def)

lemma findByIdAndUpdate_ignores_other:
  "findByIdAndUpdate now i (v\<lparr>b_other := ks\<rparr>) s = findByIdAndUpdate now i v s"
proof -
  have "validate_update now (v\<lparr>b_other := ks\<rparr>) = validate_update now v"
    by (simp add: validate_update_def)
  moreover have "\<And>t. apply_update now (v\<lparr>b_other := ks\<rparr>) t = apply_update now v t"
    by (simp add: apply_update_def)
  ultimately show ?thesis
    by (simp add: findByIdAndUpdate_def cong: option.case_cong)
qed

lemma updates_of_strip:
  "updates_of (allowedUpdates u) b =
     (updates_of (allowedUpdates u) (strip_unlisted b))
       \<lparr>b_other := filter (\<lambda>k. k \<in> set (allowedUpdates u)) (b_other b)\<rparr>"
  by (simp add: updates_of_def strip_unlisted_def pick_outside)

lemma updateTask_strip:
  "updateTask now u i b s = updateTask now u i (strip_unlisted b) s"
proof -
  have A: "findByIdAndUpdate now i (updates_of (allowedUpdates u) b) s =
        findByIdAndUpdate now i (updates_of (allowedUpdates u) (strip_unlisted b)) s"
    by (subst updates_of_strip) (rule findByIdAndUpdate_ignores_other)
  have B: "b_assignedTo (strip_unlisted b) = b_assignedTo b"
    by (simp add: strip_unlisted_def)
  show ?thesis by (simp only: updateTask_def A B)
qed

lemma updateTask_success:
  assumes "findById s i = Some t" and "updateTask now u i b s = (Inr t', s')"
  shows "t' = apply_update now (updates_of (allowedUpdates u) b) t \<and> s' = replace_task t' s"
  using assms
  by (auto simp: updateTask_def findByIdAndUpdate_def split: if_splits sum.splits option.splits)

lemma apply_update_frame:
  "task_id (apply_update now (updates_of (allowedUpdates u) b) t) = task_id t"
  "createdBy (apply_update now (updates_of (allowedUpdates u) b) t) = createdBy t"
  "completedAt (apply_update now (updates_of (allowedUpdates u) b) t) = completedAt t"
  "comments (apply_update now (updates_of (allowedUpdates u) b) t) = comments t"
  "attachments (apply_update now (updates_of (allowedUpdates u) b) t) = attachments t"
  "createdAt (apply_update now (updates_of (allowedUpdates u) b) t) = createdAt t"
  "updatedAt (apply_update now (updates_of (allowedUpdates u) b) t) = now"
  "role u \<noteq> ''admin'' \<Longrightarrow>
     assignedTo (apply_update now (updates_of (allowedUpdates u) b) t) = assignedTo t"
  by (simp_all add: apply_update_def updates_of_def pick_assignedTo pick_outside)

lemma rename_run:
  "updateTask 200 alice 10 rename_body [report_task] = (Inr renamed_task, [renamed_task])"
  by (simp add: updateTask_def findById_def canModify_def findByIdAndUpdate_def validate_update_def
      apply_update_def updates_of_def pick_def allowedUpdates_def valid_title_def valid_description_def
      trim_def is_space_def rename_body_def renamed_task_def report_task_def alice_def empty_body_def)

lemma stray_strip:
  "stray_body\<lparr>b_assignedTo := None, b_content := None, b_createdBy := None,
      b_completedAt := None, b_comments := None, b_other := []\<rparr> = rename_body"
  by (simp add: stray_body_def rename_body_def empty_body_def)

lemma updates_of_assignedTo:
  "role u \<noteq> ''admin'' \<Longrightarrow>
     updates_of (allowedUpdates u) (b\<lparr>b_assignedTo := x\<rparr>) = updates_of (allowedUpdates u) b"
  by (simp add: updates_of_def pick_assignedTo)

text \<open>
  From a caller who is not an administrator, an assignee that is the current one passes
  the guard and then is not copied: the request could as well not name it.
\<close>

lemma updateTask_same_assignee:
  assumes "findById s i = Some t" and "role u \<noteq> ''admin''"
    and "b_assignedTo b = None \<or> b_assignedTo b = Some (assignedTo t)"
  shows "updateTask now u i b s = updateTask now u i (b\<lparr>b_assignedTo := None\<rparr>) s"
  using assms by (auto simp: updateTask_def updates_of_assignedTo)

lemma plan_run:
  "updateTask 200 alice 10 plan_body [report_task] = (Inl Forbidden, [report_task])"
  by (simp add: updateTask_def findById_def canModify_def plan_body_def report_task_def alice_def
      empty_body_def)

subsection \<open>The frame of an update\<close>

text \<open>
  C9, as the claim states it, fails, in two ways. A path outside the allow-list does not
  keep its value: the owner renames a task at time 200; \<open>updatedAt\<close> is not in the
  allow-list, and the stored task carries a new \<open>updatedAt\<close>. And a submitted key
  outside the allow-list is not always dropped without error: \<open>assignedTo\<close> is not in the
  allow-list of a caller who is not an administrator, and the owner's request that names
  another assignee is answered Forbidden.
\<close>

theorem unlisted_field_effects:
  "updateTask 200 alice 10 rename_body [report_task] = (Inr renamed_task, [renamed_task]) \<and>
   ''updatedAt'' \<notin> set (allowedUpdates alice) \<and>
   updatedAt renamed_task \<noteq> updatedAt report_task \<and>
   ''assignedTo'' \<notin> set (allowedUpdates alice) \<and>
   b_assignedTo plan_body = Some 3 \<and>
   updateTask 200 alice 10 plan_body [report_task] = (Inl Forbidden, [report_task])"
proof (intro conjI)
  show "updateTask 200 alice 10 rename_body [report_task] = (Inr renamed_task, [renamed_task])"
    by (rule rename_run)
  show "''updatedAt'' \<notin> set (allowedUpdates alice)" by (simp add: allowedUpdates_def)
  show "updatedAt renamed_task \<noteq> updatedAt report_task"
    by (simp add: renamed_task_def report_task_def)
  show "''assignedTo'' \<notin> set (allowedUpdates alice)" by (simp add: allowedUpdates_def alice_def)
  show "b_assignedTo plan_body = Some 3" by (simp add: plan_body_def)
  show "updateTask 200 alice 10 plan_body [report_task] = (Inl Forbidden, [report_task])"
    by (rule plan_run)
qed

text \<open>
  C9, amended. For a stored task, an update has the outcome it has without the submitted
  keys that are not in the allow-list of the caller: they cause no error and no change.
  The one exception is \<open>assignedTo\<close> from a caller who is not an administrator: it is
  dropped in this way when it names the current assignee of the task, and the request is
  answered Forbidden, the store unchanged, when it names another. After a successful
  update the stored task keeps its id, creator, completion time, comments, attachments
  and creation time, and its assignee unless the caller is an administrator; the updated
  task is what the store holds under the id, and every other task of the store is as it
  was. Nothing is said of \<open>updatedAt\<close>.
\<close>

theorem update_frame:
  "findById s i = Some t \<Longrightarrow>
     (role u = ''admin'' \<or> b_assignedTo b = None \<or> b_assignedTo b = Some (assignedTo t) \<longrightarrow>
        updateTask now u i b s =
          updateTask now u i
            (b\<lparr>b_assignedTo := (if role u = ''admin'' then b_assignedTo b else None),
               b_content := None, b_createdBy := None, b_completedAt := None,
               b_comments := None, b_other := []\<rparr>) s) \<and>
     (role u \<noteq> ''admin'' \<and> b_assignedTo b \<noteq> None \<and> b_assignedTo b \<noteq> Some (assignedTo t) \<longrightarrow>
        updateTask now u i b s = (Inl Forbidden, s)) \<and>
     (updateTask now u i b s = (Inr t', s') \<longrightarrow>
        task_id t' = task_id t \<and> createdBy t' = createdBy t \<and> completedAt t' = completedAt t \<and>
        comments t' = comments t \<and> attachments t' = attachments t \<and> createdAt t' = createdAt t \<and>
        (role u \<noteq> ''admin'' \<longrightarrow> assignedTo t' = assignedTo t) \<and>
        findById s' i = Some t' \<and> (\<forall>j. j \<noteq> i \<longrightarrow> findById s' j = findById s j))"
proof (intro conjI impI)
  assume found: "findById s i = Some t"
  {
    assume c: "role u = ''admin'' \<or> b_assignedTo b = None \<or> b_assignedTo b = Some (assignedTo t)"
    let ?a = "if role u = ''admin'' then b_assignedTo b else None"
    have "updateTask now u i b s = updateTask now u i (b\<lparr>b_assignedTo := ?a\<rparr>) s"
    proof (cases "role u = ''admin''")
      case True
      then show ?thesis by simp
    next
      case False
      with c have "b_assignedTo b = None \<or> b_assignedTo b = Some (assignedTo t)" by blast
      from updateTask_same_assignee [OF found False this] False show ?thesis by simp
    qed
    also have "\<dots> = updateTask now u i (strip_unlisted (b\<lparr>b_assignedTo := ?a\<rparr>)) s"
      by (rule updateTask_strip)
    also have "strip_unlisted (b\<lparr>b_assignedTo := ?a\<rparr>) =
        b\<lparr>b_assignedTo := ?a, b_content := None, b_createdBy := None, b_completedAt := None,
          b_comments := None, b_other := []\<rparr>"
      by (simp add: strip_unlisted_def)
    finally show "updateTask now u i b s =
          updateTask now u i
            (b\<lparr>b_assignedTo := ?a, b_content := None, b_createdBy := None, b_completedAt := None,
               b_comments := None, b_other := []\<rparr>) s" .
  }
  {
    assume "role u \<noteq> ''admin'' \<and> b_assignedTo b \<noteq> None \<and> b_assignedTo b \<noteq> Some (assignedTo t)"
    with found show "updateTask now u i b s = (Inl Forbidden, s)"
      by (auto simp: updateTask_def)
  }
  assume h: "updateTask now u i b s = (Inr t', s')"
  with found have eq: "t' = apply_update now (updates_of (allowedUpdates u) b) t"
    and s': "s' = replace_task t' s"
    using updateTask_success by blast+
  have idt: "task_id t = i" using found findById_id by blast
  show "task_id t' = task_id t" "createdBy t' = createdBy t" "completedAt t' = completedAt t"
    "comments t' = comments t" "attachments t' = attachments t" "createdAt t' = createdAt t"
    by (simp_all add: eq apply_update_frame)
  then have idt': "task_id t' = i" using idt by simp
  show "findById s' i = Some t'" using found idt' s' findById_replace_same by blast
  show "\<forall>j. j \<noteq> i \<longrightarrow> findById s' j = findById s j"
    using idt' s' findById_replace_other by auto
  assume "role u \<noteq> ''admin''"
  then show "assignedTo t' = assignedTo t" by (simp add: eq apply_update_frame)
qed

theorem update_frame_witness:
  "findById [report_task] 10 = Some report_task \<and>
   role alice \<noteq> ''admin'' \<and>
   b_assignedTo stray_body = Some (assignedTo report_task) \<and>
   updateTask 200 alice 10 stray_body [report_task] = (Inr renamed_task, [renamed_task]) \<and>
   createdBy renamed_task = createdBy report_task \<and>
   completedAt renamed_task = completedAt report_task \<and>
   assignedTo renamed_task = assignedTo report_task"
proof -
  have a: "role alice \<noteq> ''admin''" by (simp add: alice_def)
  have same: "b_assignedTo stray_body = Some (assignedTo report_task)"
    by (simp add: stray_body_def report_task_def)
  have pick: "(if role alice = ''admin'' then b_assignedTo stray_body else None) = None"
    using a by simp
  have "updateTask 200 alice 10 stray_body [report_task] =
          updateTask 200 alice 10
            (stray_body\<lparr>b_assignedTo := (if role alice = ''admin'' then b_assignedTo stray_body else None),
               b_content := None, b_createdBy := None, b_completedAt := None,
               b_comments := None, b_other := []\<rparr>) [report_task]"
    using update_frame [OF sample_lookup, of alice stray_body 200] same by blast
  then have run: "updateTask 200 alice 10 stray_body [report_task] = (Inr renamed_task, [renamed_task])"
    by (simp only: pick stray_strip rename_run)
  from update_frame [OF sample_lookup, of alice stray_body 200 renamed_task "[renamed_task]"] run a
  have "createdBy renamed_task = createdBy report_task \<and>
        completedAt renamed_task = completedAt report_task \<and>
        assignedTo renamed_task = assignedTo report_task"
    by blast
  with sample_lookup a same run show ?thesis by blast
qed

section \<open>Status and completion time\<close>

subsection \<open>On creation\<close>

lemma pre_save_dueDate_Inr: "pre_save_dueDate now t = Inr d \<Longrightarrow> d = t"
  by (auto simp: pre_save_dueDate_def split: option.splits if_splits)

lemma pre_save_completedAt_derives:
  "completedAt t = None \<Longrightarrow> m \<or> status t \<noteq> ''completed'' \<Longrightarrow>
     (completedAt (pre_save_completedAt m now t) \<noteq> None)
       = (status (pre_save_completedAt m now t) = ''completed'')"
  by (auto simp: pre_save_completedAt_def)

lemma new_task_fresh:
  "completedAt (new_task newId a c b) = None"
  "b_status b = None \<Longrightarrow> status (new_task newId a c b) = ''pending''"
  by (simp_all add: new_task_def)

lemma Task_create_Inr:
  "Task_create now newId a c b = Inr t \<Longrightarrow>
     t = (pre_save_completedAt (b_status b \<noteq> None) now (new_task newId a c b))
           \<lparr>createdAt := now, updatedAt := now\<rparr>"
  by (auto simp: Task_create_def pre_save_def Let_def split: if_splits sum.splits
      dest: pre_save_dueDate_Inr)

lemma createTask_Inr:
  "createTask now newId u b s = (Inr t, s') \<Longrightarrow>
     \<exists>a. Task_create now newId a (user_id u) b = Inr t \<and> s' = s @ [t]"
  by (auto simp: createTask_def Let_def split: if_splits sum.splits)

text \<open>A created task has a completion time exactly when its status is \<open>completed\<close>.\<close>

lemma create_derives_completedAt:
  assumes "createTask now newId u b s = (Inr t, s')"
  shows "(completedAt t \<noteq> None) = (status t = ''completed'')"
proof -
  from assms obtain a where "Task_create now newId a (user_id u) b = Inr t"
    using createTask_Inr by blast
  then have t: "t = (pre_save_completedAt (b_status b \<noteq> None) now (new_task newId a (user_id u) b))
      \<lparr>createdAt := now, updatedAt := now\<rparr>"
    by (rule Task_create_Inr)
  have "b_status b \<noteq> None \<or> status (new_task newId a (user_id u) b) \<noteq> ''completed''"
    using new_task_fresh(2) [of b newId a "user_id u"] by auto
  from pre_save_completedAt_derives [OF new_task_fresh(1) this, of now]
  show ?thesis by (simp add: t)
qed

subsection \<open>On update\<close>

text \<open>
  C2. The derivation of \<open>completedAt\<close> from the status is the work of a pre-save hook,
  and \<open>updateTask\<close> writes through \<open>findByIdAndUpdate\<close>, which runs no save hook. The owner
  of a pending task sets its status to \<open>completed\<close>: the update succeeds and the stored
  task is completed with no completion time.
\<close>

theorem status_update_keeps_completedAt:
  "updateTask 200 alice 10 complete_body [report_task] = (Inr done_task, [done_task]) \<and>
   status report_task = ''pending'' \<and> completedAt report_task = None \<and>
   status done_task = ''completed'' \<and> completedAt done_task = None"
  by (simp add: updateTask_def findById_def canModify_def findByIdAndUpdate_def validate_update_def
      apply_update_def updates_of_def pick_def allowedUpdates_def valid_status_def status_values_def
      valid_description_def complete_body_def done_task_def report_task_def alice_def empty_body_def)

section \<open>Listing tasks: the filter\<close>

lemma getTasks_filter_steps:
  "getTasks_filter now u q =
     with_search q (with_dueDate now q (with_isArchived q (with_createdBy q (with_assignedTo q
       (with_category q (with_priority q (with_status q (ownership_scope u))))))))"
  unfolding getTasks_filter_def Let_def with_search_def with_dueDate_def with_isArchived_def
    with_createdBy_def with_assignedTo_def with_category_def with_priority_def with_status_def
  by (rule refl)

lemma steps_page:
  "with_status (q\<lparr>q_page := x\<rparr>) = with_status q"
  "with_priority (q\<lparr>q_page := x\<rparr>) = with_priority q"
  "with_category (q\<lparr>q_page := x\<rparr>) = with_category q"
  "with_assignedTo (q\<lparr>q_page := x\<rparr>) = with_assignedTo q"
  "with_createdBy (q\<lparr>q_page := x\<rparr>) = with_createdBy q"
  "with_isArchived (q\<lparr>q_page := x\<rparr>) = with_isArchived q"
  "with_dueDate now (q\<lparr>q_page := x\<rparr>) = with_dueDate now q"
  "with_search (q\<lparr>q_page := x\<rparr>) = with_search q"
  by (simp_all add: fun_eq_iff with_search_def with_dueDate_def with_isArchived_def
    with_createdBy_def with_assignedTo_def with_category_def with_priority_def with_status_def)

lemma getTasks_filter_page: "getTasks_filter now u (q\<lparr>q_page := x\<rparr>) = getTasks_filter now u q"
  by (simp only: getTasks_filter_steps steps_page)

section \<open>Listing tasks: pagination\<close>

lemma mset_insert_by: "mset (insert_by le x xs) = add_mset x (mset xs)"
  by (induction xs) auto

lemma mset_sort_by: "mset (sort_by le xs) = mset xs"
  unfolding sort_by_def by (induction xs) (auto simp: mset_insert_by)

lemma length_sort_by: "length (sort_by le xs) = length xs"
  using mset_sort_by [of le xs] by (metis size_mset)

lemma set_sort_by: "set (sort_by le xs) = set xs"
  using mset_sort_by [of le xs] by (metis set_mset_mset)

lemma concat_pages:
  "concat (map (\<lambda>p. take l (drop ((p - 1) * l) xs)) [1..<Suc n]) = take (n * l) xs"
proof (induction n)
  case 0
  then show ?case by simp
next
  case (Suc n)
  have "take (n * l + l) xs = take (n * l) xs @ take l (drop (n * l) xs)"
    by (rule take_add)
  moreover have "Suc n * l = n * l + l" by simp
  ultimately have "take (Suc n * l) xs = take (n * l) xs @ take l (drop (n * l) xs)"
    by (simp only:)
  with Suc show ?case by simp
qed

lemma ceiling_pages_cover:
  assumes "0 < l"
  shows "n \<le> nat \<lceil>real n / real l\<rceil> * l"
proof -
  define c where "c = \<lceil>real n / real l\<rceil>"
  have pos: "0 < real l" using assms by simp
  have "real n / real l \<le> real_of_int c" unfolding c_def by (rule le_of_int_ceiling)
  then have a: "real n \<le> real_of_int c * real l"
    using pos_divide_le_eq [OF pos] by blast
  have "- 1 < real n / real l"
    by (rule less_le_trans [of _ 0]) simp_all
  then have "0 \<le> c" unfolding c_def by (simp only: zero_le_ceiling)
  then have "real_of_int c = real (nat c)" by simp
  with a have "real n \<le> real (nat c) * real l" by (simp only:)
  then have "real n \<le> real (nat c * l)" by (simp only: of_nat_mult)
  then have "n \<le> nat c * l" by (simp only: of_nat_le_iff)
  then show ?thesis unfolding c_def .
qed

lemma limit_of_pos: "0 < limit_of q"
  by (simp add: limit_of_def split: option.splits)

lemma sort_of_page: "sort_of (q\<lparr>q_page := x\<rparr>) = sort_of q"
  by (simp add: sort_of_def)

lemma limit_of_page: "limit_of (q\<lparr>q_page := x\<rparr>) = limit_of q"
  by (simp add: limit_of_def)

lemma page_of_set: "0 < p \<Longrightarrow> page_of (q\<lparr>q_page := Some p\<rparr>) = p"
  by (simp add: page_of_def)

lemma getTasks_fields:
  "r_tasks (getTasks rx ord now u q s) =
     take (limit_of q) (drop ((page_of q - 1) * limit_of q)
       (sorted_matches rx ord (getTasks_filter now u q) (sort_of q) s))"
  "r_current (getTasks rx ord now u q s) = page_of q"
  "r_limit (getTasks rx ord now u q s) = limit_of q"
  "r_total (getTasks rx ord now u q s) = countDocuments rx (getTasks_filter now u q) s"
  "r_pages (getTasks rx ord now u q s) =
     nat \<lceil>real (countDocuments rx (getTasks_filter now u q) s) / real (limit_of q)\<rceil>"
  by (simp_all add: getTasks_def Let_def)

lemma getTasks_other_page:
  "0 < p \<Longrightarrow> r_tasks (getTasks rx ord now u (q\<lparr>q_page := Some p\<rparr>) s) =
     take (limit_of q) (drop ((p - 1) * limit_of q)
       (sorted_matches rx ord (getTasks_filter now u q) (sort_of q) s))"
  by (simp only: getTasks_fields getTasks_filter_page sort_of_page limit_of_page page_of_set)

text \<open>
  C8. The page fetch and the count use the same filter: the number of pages reported is
  the ceiling of the total over the limit, the total is the number of stored tasks that
  match, each page is the window of its number in the sorted matches, and the pages from
  1 to the last, one after the other, are the sorted matches, hence exactly the matching
  tasks, each once. Page 1 and limit 10 are the defaults.
\<close>

theorem pagination:
  "r_pages (getTasks rx ord now u q s)
     = nat \<lceil>real (r_total (getTasks rx ord now u q s)) / real (r_limit (getTasks rx ord now u q s))\<rceil> \<and>
   r_total (getTasks rx ord now u q s) = size (filter_mset (matches rx (getTasks_filter now u q)) (mset s)) \<and>
   mset (concat (map (\<lambda>p. r_tasks (getTasks rx ord now u (q\<lparr>q_page := Some p\<rparr>) s))
                 [1..<Suc (r_pages (getTasks rx ord now u q s))]))
     = filter_mset (matches rx (getTasks_filter now u q)) (mset s) \<and>
   concat (map (\<lambda>p. r_tasks (getTasks rx ord now u (q\<lparr>q_page := Some p\<rparr>) s))
                 [1..<Suc (r_pages (getTasks rx ord now u q s))])
     = sorted_matches rx ord (getTasks_filter now u q) (sort_of q) s \<and>
   r_tasks (getTasks rx ord now u q s)
     = take (r_limit (getTasks rx ord now u q s))
         (drop ((r_current (getTasks rx ord now u q s) - 1) * r_limit (getTasks rx ord now u q s))
           (sorted_matches rx ord (getTasks_filter now u q) (sort_of q) s)) \<and>
   r_current (getTasks rx ord now u (q\<lparr>q_page := None\<rparr>) s) = 1 \<and>
   r_limit (getTasks rx ord now u (q\<lparr>q_limit := None\<rparr>) s) = 10"
proof -
  let ?f = "getTasks_filter now u q"
  let ?r = "getTasks rx ord now u q s"
  let ?all = "sorted_matches rx ord ?f (sort_of q) s"
  let ?l = "limit_of q"
  let ?n = "nat \<lceil>real (countDocuments rx ?f s) / real ?l\<rceil>"
  let ?page = "\<lambda>p. r_tasks (getTasks rx ord now u (q\<lparr>q_page := Some p\<rparr>) s)"
  have len: "length ?all = countDocuments rx ?f s"
    by (simp add: sorted_matches_def length_sort_by Task_find_def countDocuments_def)
  have ms: "mset ?all = filter_mset (matches rx ?f) (mset s)"
    by (simp add: sorted_matches_def mset_sort_by Task_find_def)
  have pages: "r_pages ?r = ?n" by (rule getTasks_fields(5))
  have total: "r_total ?r = countDocuments rx ?f s" by (rule getTasks_fields(4))
  have limit: "r_limit ?r = ?l" by (rule getTasks_fields(3))
  have c1: "r_pages ?r = nat \<lceil>real (r_total ?r) / real (r_limit ?r)\<rceil>"
    by (simp only: pages total limit)
  have c2: "r_total ?r = size (filter_mset (matches rx ?f) (mset s))"
    using ms len total by (metis size_mset)
  have "map ?page [1..<Suc ?n] = map (\<lambda>p. take ?l (drop ((p - 1) * ?l) ?all)) [1..<Suc ?n]"
  proof (rule map_cong)
    fix p assume "p \<in> set [1..<Suc ?n]"
    then have "0 < p" by (simp del: upt_Suc)
    then show "?page p = take ?l (drop ((p - 1) * ?l) ?all)" by (rule getTasks_other_page)
  qed (rule refl)
  then have "concat (map ?page [1..<Suc ?n]) = take (?n * ?l) ?all"
    by (simp only: concat_pages)
  moreover have "length ?all \<le> ?n * ?l"
    unfolding len by (rule ceiling_pages_cover) (rule limit_of_pos)
  ultimately have "concat (map ?page [1..<Suc ?n]) = ?all"
    by (simp only: take_all)
  then have c4: "concat (map ?page [1..<Suc (r_pages ?r)]) = ?all"
    by (simp only: pages)
  have c3: "mset (concat (map ?page [1..<Suc (r_pages ?r)])) = filter_mset (matches rx ?f) (mset s)"
    by (simp only: c4 ms)
  have c5: "r_tasks ?r = take (r_limit ?r) (drop ((r_current ?r - 1) * r_limit ?r) ?all)"
    by (simp only: getTasks_fields(1-3))
  have c6: "r_current (getTasks rx ord now u (q\<lparr>q_page := None\<rparr>) s) = 1"
    by (simp add: getTasks_fields(2) page_of_def)
  have c7: "r_limit (getTasks rx ord now u (q\<lparr>q_limit := None\<rparr>) s) = 10"
    by (simp add: getTasks_fields(3) limit_of_def)
  show ?thesis by (intro conjI c1 c2 c3 c4 c5 c6 c7)
qed

theorem pagination_witness:
  "r_pages (getTasks word_regex by_field 1000 root two_per_page three_tasks) = 2 \<and>
   r_total (getTasks word_regex by_field 1000 root two_per_page three_tasks) = 3 \<and>
   map task_id (r_tasks (getTasks word_regex by_field 1000 root two_per_page three_tasks)) = [12, 10] \<and>
   map task_id (concat (map (\<lambda>p. r_tasks (getTasks word_regex by_field 1000 root
                                        (two_per_page\<lparr>q_page := Some p\<rparr>) three_tasks))
                            [1..<Suc 2])) = [12, 10, 11]"
proof -
  let ?r = "getTasks word_regex by_field 1000 root two_per_page three_tasks"
  have p: "r_pages ?r = 2" by code_simp
  have t: "r_total ?r = 3" by code_simp
  have f: "map task_id (r_tasks ?r) = [12, 10]" by code_simp
  have m: "map task_id (sorted_matches word_regex by_field (getTasks_filter 1000 root two_per_page)
             (sort_of two_per_page) three_tasks) = [12, 10, 11]"
    by code_simp
  have "concat (map (\<lambda>p. r_tasks (getTasks word_regex by_field 1000 root
                                        (two_per_page\<lparr>q_page := Some p\<rparr>) three_tasks))
                            [1..<Suc (r_pages ?r)])
        = sorted_matches word_regex by_field (getTasks_filter 1000 root two_per_page)
             (sort_of two_per_page) three_tasks"
    by (rule pagination [of word_regex by_field 1000 root two_per_page three_tasks,
          THEN conjunct2, THEN conjunct2, THEN conjunct2, THEN conjunct1])
  then have c: "map task_id (concat (map (\<lambda>p. r_tasks (getTasks word_regex by_field 1000 root
                                        (two_per_page\<lparr>q_page := Some p\<rparr>) three_tasks))
                            [1..<Suc 2])) = [12, 10, 11]"
    by (simp only: p m)
  show ?thesis by (intro conjI p t f c)
qed

section \<open>Listing tasks: the ownership scope\<close>

lemma in_page_matches:
  assumes "t \<in> set (r_tasks (getTasks rx ord now u q s))"
  shows "t \<in> set s \<and> matches rx (getTasks_filter now u q) t"
proof -
  from assms have "t \<in> set (sorted_matches rx ord (getTasks_filter now u q) (sort_of q) s)"
    unfolding getTasks_fields(1) by (blast dest: in_set_takeD in_set_dropD)
  then show ?thesis
    by (simp add: sorted_matches_def set_sort_by Task_find_def)
qed

lemma f_or_steps:
  "f_or (with_status q f) = f_or f"
  "f_or (with_priority q f) = f_or f"
  "f_or (with_category q f) = f_or f"
  "f_or (with_assignedTo q f) = f_or f"
  "f_or (with_createdBy q f) = f_or f"
  "f_or (with_isArchived q f) = f_or f"
  "f_or (with_dueDate now q f) = f_or f"
  by (simp_all add: with_dueDate_def with_isArchived_def with_createdBy_def with_assignedTo_def
      with_category_def with_priority_def with_status_def split: option.splits)

lemma f_or_without_search:
  "\<not> given (q_search q) \<Longrightarrow> f_or (getTasks_filter now u q) = f_or (ownership_scope u)"
  by (simp add: getTasks_filter_steps f_or_steps with_search_def given_def split: option.splits)

text \<open>Without a search term the list of a non-admin stays inside the ownership scope.\<close>

lemma scope_without_search:
  assumes "role u \<noteq> ''admin''" and "\<not> given (q_search q)"
    and "t \<in> set (r_tasks (getTasks rx ord now u q s))"
  shows "assignedTo t = user_id u \<or> createdBy t = user_id u"
proof -
  have "f_or (getTasks_filter now u q) = Some [AssignedToIs (user_id u), CreatedByIs (user_id u)]"
    using assms(1,2) by (simp add: f_or_without_search ownership_scope_def)
  moreover have "matches rx (getTasks_filter now u q) t"
    using assms(3) in_page_matches by blast
  ultimately show ?thesis by (simp add: matches_def)
qed

text \<open>
  C1. The search term is stored under the key \<open>$or\<close>, which held the ownership scope of a
  caller who is not an administrator. Bob is neither the assignee nor the creator of the
  report task: his plain list is empty, and his search for a word of its title returns it.
\<close>

theorem search_escapes_scope:
  "r_tasks (getTasks word_regex by_field 200 bob search_query [report_task]) = [report_task] \<and>
   role bob \<noteq> ''admin'' \<and>
   assignedTo report_task \<noteq> user_id bob \<and> createdBy report_task \<noteq> user_id bob \<and>
   r_tasks (getTasks word_regex by_field 200 bob empty_query [report_task]) = []"
  by (simp add: getTasks_fields getTasks_filter_steps with_search_def with_dueDate_def
      with_isArchived_def with_createdBy_def with_assignedTo_def with_category_def with_priority_def
      with_status_def ownership_scope_def no_filter_def given_def sorted_matches_def Task_find_def
      sort_by_def matches_def sort_of_def page_of_def limit_of_def word_regex_def lower_def
      search_query_def empty_query_def report_task_def bob_def)

section \<open>Listing tasks: the equality filters\<close>

lemma with_status_fields:
  "f_priority (with_status q f) = f_priority f"
  "f_category (with_status q f) = f_category f"
  "f_assignedTo (with_status q f) = f_assignedTo f"
  "f_createdBy (with_status q f) = f_createdBy f"
  "f_isArchived (with_status q f) = f_isArchived f"
  "f_status (with_status q f) = (if given (q_status q) then map_option StatusIs (q_status q) else f_status f)"
  by (simp_all add: with_status_def split: option.splits)

lemma with_priority_fields:
  "f_priority (with_priority q f) = (if given (q_priority q) then q_priority q else f_priority f)"
  "f_category (with_priority q f) = f_category f"
  "f_assignedTo (with_priority q f) = f_assignedTo f"
  "f_createdBy (with_priority q f) = f_createdBy f"
  "f_isArchived (with_priority q f) = f_isArchived f"
  "f_status (with_priority q f) = f_status f"
  by (simp_all add: with_priority_def split: option.splits)

lemma with_category_fields:
  "f_priority (with_category q f) = f_priority f"
  "f_category (with_category q f) = (if given (q_category q) then q_category q else f_category f)"
  "f_assignedTo (with_category q f) = f_assignedTo f"
  "f_createdBy (with_category q f) = f_createdBy f"
  "f_isArchived (with_category q f) = f_isArchived f"
  "f_status (with_category q f) = f_status f"
  by (simp_all add: with_category_def split: option.splits)

lemma with_assignedTo_fields:
  "f_priority (with_assignedTo q f) = f_priority f"
  "f_category (with_assignedTo q f) = f_category f"
  "f_assignedTo (with_assignedTo q f) = (if q_assignedTo q \<noteq> None then q_assignedTo q else f_assignedTo f)"
  "f_createdBy (with_assignedTo q f) = f_createdBy f"
  "f_isArchived (with_assignedTo q f) = f_isArchived f"
  "f_status (with_assignedTo q f) = f_status f"
  by (simp_all add: with_assignedTo_def split: option.splits)

lemma with_createdBy_fields:
  "f_priority (with_createdBy q f) = f_priority f"
  "f_category (with_createdBy q f) = f_category f"
  "f_assignedTo (with_createdBy q f) = f_assignedTo f"
  "f_createdBy (with_createdBy q f) = (if q_createdBy q \<noteq> None then q_createdBy q else f_createdBy f)"
  "f_isArchived (with_createdBy q f) = f_isArchived f"
  "f_status (with_createdBy q f) = f_status f"
  by (simp_all add: with_createdBy_def split: option.splits)

lemma with_isArchived_fields:
  "f_priority (with_isArchived q f) = f_priority f"
  "f_category (with_isArchived q f) = f_category f"
  "f_assignedTo (with_isArchived q f) = f_assignedTo f"
  "f_createdBy (with_isArchived q f) = f_createdBy f"
  "f_isArchived (with_isArchived q f) = (case q_isArchived q of None \<Rightarrow> f_isArchived f | Some v \<Rightarrow> Some (v = ''true''))"
  "f_status (with_isArchived q f) = f_status f"
  by (simp_all add: with_isArchived_def split: option.splits)

lemma with_dueDate_fields:
  "f_priority (with_dueDate now q f) = f_priority f"
  "f_category (with_dueDate now q f) = f_category f"
  "f_assignedTo (with_dueDate now q f) = f_assignedTo f"
  "f_createdBy (with_dueDate now q f) = f_createdBy f"
  "f_isArchived (with_dueDate now q f) = f_isArchived f"
  "f_status (with_dueDate now q f) = (if given (q_dueDate q) \<and> q_dueDate q = Some ''overdue'' then Some (StatusNin [''completed'', ''cancelled'']) else f_status f)"
  by (auto simp: with_dueDate_def given_def split: option.splits)

lemma with_search_fields:
  "f_priority (with_search q f) = f_priority f"
  "f_category (with_search q f) = f_category f"
  "f_assignedTo (with_search q f) = f_assignedTo f"
  "f_createdBy (with_search q f) = f_createdBy f"
  "f_isArchived (with_search q f) = f_isArchived f"
  "f_status (with_search q f) = f_status f"
  by (simp_all add: with_search_def split: option.splits)

lemma ownership_scope_fields:
  "f_priority (ownership_scope u) = None"
  "f_category (ownership_scope u) = None"
  "f_assignedTo (ownership_scope u) = None"
  "f_createdBy (ownership_scope u) = None"
  "f_isArchived (ownership_scope u) = None"
  "f_status (ownership_scope u) = None"
  by (simp_all add: ownership_scope_def no_filter_def)

lemma filter_fields:
  "f_priority (getTasks_filter now u q) = (if given (q_priority q) then q_priority q else None)"
  "f_category (getTasks_filter now u q) = (if given (q_category q) then q_category q else None)"
  "f_assignedTo (getTasks_filter now u q) = q_assignedTo q"
  "f_createdBy (getTasks_filter now u q) = q_createdBy q"
  "f_isArchived (getTasks_filter now u q) = map_option (\<lambda>v. v = ''true'') (q_isArchived q)"
  "f_status (getTasks_filter now u q) =
     (if given (q_dueDate q) \<and> q_dueDate q = Some ''overdue''
      then Some (StatusNin [''completed'', ''cancelled''])
      else if given (q_status q) then map_option StatusIs (q_status q) else None)"
  by (simp_all add: getTasks_filter_steps with_status_fields with_priority_fields with_category_fields with_assignedTo_fields with_createdBy_fields with_isArchived_fields with_dueDate_fields with_search_fields ownership_scope_fields given_def split: option.splits)

lemma equality_filters:
  assumes "t \<in> set (r_tasks (getTasks rx ord now u q s))"
  shows "(given (q_priority q) \<longrightarrow> Some (priority t) = q_priority q) \<and>
         (given (q_category q) \<longrightarrow> Some (category t) = q_category q) \<and>
         (\<forall>a. q_assignedTo q = Some a \<longrightarrow> assignedTo t = a) \<and>
         (\<forall>c. q_createdBy q = Some c \<longrightarrow> createdBy t = c) \<and>
         (\<forall>v. q_isArchived q = Some v \<longrightarrow> isArchived t = (v = ''true'')) \<and>
         (q_dueDate q \<noteq> Some ''overdue'' \<longrightarrow> given (q_status q) \<longrightarrow> Some (status t) = q_status q)"
proof -
  let ?F = "getTasks_filter now u q"
  have m: "matches rx ?F t"
    using assms in_page_matches by blast
  have "case f_priority ?F of None \<Rightarrow> True | Some v \<Rightarrow> priority t = v"
    using m by (simp add: matches_def)
  then have c1: "given (q_priority q) \<longrightarrow> Some (priority t) = q_priority q"
    unfolding filter_fields by (auto simp: given_def split: option.splits)
  have "case f_category ?F of None \<Rightarrow> True | Some v \<Rightarrow> category t = v"
    using m by (simp add: matches_def)
  then have c2: "given (q_category q) \<longrightarrow> Some (category t) = q_category q"
    unfolding filter_fields by (auto simp: given_def split: option.splits)
  have "case f_assignedTo ?F of None \<Rightarrow> True | Some v \<Rightarrow> assignedTo t = v"
    using m by (simp add: matches_def)
  then have c3: "\<forall>a. q_assignedTo q = Some a \<longrightarrow> assignedTo t = a"
    unfolding filter_fields by auto
  have "case f_createdBy ?F of None \<Rightarrow> True | Some v \<Rightarrow> createdBy t = v"
    using m by (simp add: matches_def)
  then have c4: "\<forall>c. q_createdBy q = Some c \<longrightarrow> createdBy t = c"
    unfolding filter_fields by auto
  have "case f_isArchived ?F of None \<Rightarrow> True | Some v \<Rightarrow> isArchived t = v"
    using m by (simp add: matches_def)
  then have c5: "\<forall>v. q_isArchived q = Some v \<longrightarrow> isArchived t = (v = ''true'')"
    unfolding filter_fields by auto
  have "case f_status ?F of None \<Rightarrow> True | Some c \<Rightarrow> status_holds c t"
    using m by (simp add: matches_def)
  then have c6: "q_dueDate q \<noteq> Some ''overdue'' \<longrightarrow> given (q_status q) \<longrightarrow> Some (status t) = q_status q"
    unfolding filter_fields by (auto simp: given_def split: option.splits)
  show ?thesis by (intro conjI c1 c2 c3 c4 c5 c6)
qed

text \<open>
  C5. The keyword \<open>overdue\<close> stores its condition on the status under the key
  \<open>status\<close>, which held the equality asked for by the \<open>status\<close> parameter. A request
  for the pending overdue tasks returns a task in progress, which the request for the
  pending tasks alone leaves out.
\<close>

theorem overdue_drops_status_filter:
  "r_tasks (getTasks word_regex by_field 1000 root pending_overdue_query [late_task]) = [late_task] \<and>
   q_status pending_overdue_query = Some ''pending'' \<and> status late_task \<noteq> ''pending'' \<and>
   r_tasks (getTasks word_regex by_field 1000 root pending_query [late_task]) = []"
  by (simp add: getTasks_fields getTasks_filter_steps with_search_def with_dueDate_def
      with_isArchived_def with_createdBy_def with_assignedTo_def with_category_def with_priority_def
      with_status_def ownership_scope_def no_filter_def given_def sorted_matches_def Task_find_def
      sort_by_def matches_def in_range_def sort_of_def page_of_def limit_of_def
      pending_overdue_query_def pending_query_def empty_query_def late_task_def root_def)

section \<open>The calendar: years and months\<close>

lemma div_succ:
  fixes x k :: int
  assumes "0 < k"
  shows "(x + 1) div k = x div k + (if (x + 1) mod k = 0 then 1 else 0)"
proof -
  define q where "q = x div k"
  define r where "r = x mod k"
  have x: "x = k * q + r" by (simp add: q_def r_def)
  have r: "0 \<le> r" "r < k" using assms by (simp_all add: r_def)
  show ?thesis
  proof (cases "r + 1 = k")
    case True
    then have e: "x + 1 = k * (q + 1) + 0" using x by (simp add: algebra_simps)
    have "(x + 1) div k = q + 1" by (rule int_div_pos_eq [OF e]) (use assms in simp_all)
    moreover have "(x + 1) mod k = 0" by (rule int_mod_pos_eq [OF e]) (use assms in simp_all)
    ultimately show ?thesis by (simp add: q_def)
  next
    case False
    then have b: "0 \<le> r + 1" "r + 1 < k" using r by simp_all
    have e: "x + 1 = k * q + (r + 1)" using x by simp
    have "(x + 1) div k = q" by (rule int_div_pos_eq [OF e b])
    moreover have "(x + 1) mod k = r + 1" by (rule int_mod_pos_eq [OF e b])
    ultimately show ?thesis using r by (simp add: q_def)
  qed
qed

lemma mod_shift:
  "(y - 1968) mod 4 = y mod (4::int)"
  "(y - 1900) mod 100 = y mod (100::int)"
  "(y - 1600) mod 400 = y mod (400::int)"
proof -
  have "y - 1968 = y + (- 492) * 4" by simp
  then show "(y - 1968) mod 4 = y mod (4::int)" by (simp only: mod_mult_self1)
  have "y - 1900 = y + (- 19) * 100" by simp
  then show "(y - 1900) mod 100 = y mod (100::int)" by (simp only: mod_mult_self1)
  have "y - 1600 = y + (- 4) * 400" by simp
  then show "(y - 1600) mod 400 = y mod (400::int)" by (simp only: mod_mult_self1)
qed

lemma mod_chain:
  fixes y :: int
  shows "y mod 400 = 0 \<Longrightarrow> y mod 100 = 0" and "y mod 100 = 0 \<Longrightarrow> y mod 4 = 0"
proof -
  have d: "(100::int) dvd 400" "(4::int) dvd 100" by simp_all
  {
    assume "y mod 400 = 0"
    with mod_mod_cancel [OF d(1), of y] have "(0::int) mod 100 = y mod 100" by (simp only:)
    then show "y mod 100 = 0" by (simp only: mod_0)
  }
  {
    assume "y mod 100 = 0"
    with mod_mod_cancel [OF d(2), of y] have "(0::int) mod 4 = y mod 4" by (simp only:)
    then show "y mod 4 = 0" by (simp only: mod_0)
  }
qed

lemma div_step:
  "(y - 1968) div 4 = (y - 1969) div 4 + (if y mod 4 = 0 then 1 else 0)"
  "(y - 1900) div 100 = (y - 1901) div 100 + (if y mod 100 = 0 then 1 else 0)"
  "(y - 1600) div 400 = (y - 1601) div 400 + (if y mod 400 = 0 then 1 else (0::int))"
proof -
  have e: "y - 1969 + 1 = y - 1968" "y - 1901 + 1 = y - 1900" "y - 1601 + 1 = y - 1600" by simp_all
  have p: "(0::int) < 4" "(0::int) < 100" "(0::int) < 400" by simp_all
  from div_succ [OF p(1), of "y - 1969"]
  show "(y - 1968) div 4 = (y - 1969) div 4 + (if y mod 4 = 0 then 1 else 0)"
    by (simp only: e mod_shift)
  from div_succ [OF p(2), of "y - 1901"]
  show "(y - 1900) div 100 = (y - 1901) div 100 + (if y mod 100 = 0 then 1 else 0)"
    by (simp only: e mod_shift)
  from div_succ [OF p(3), of "y - 1601"]
  show "(y - 1600) div 400 = (y - 1601) div 400 + (if y mod 400 = 0 then 1 else (0::int))"
    by (simp only: e mod_shift)
qed

lemma DayFromYear_next: "DayFromYear (y + 1) = DayFromYear y + DaysInYear y"
proof -
  define A where "A = (y - 1969) div 4"
  define B where "B = (y - 1901) div 100"
  define C where "C = (y - 1601) div 400"
  define p4 where "p4 = (y mod 4 = 0)"
  define p100 where "p100 = (y mod 100 = 0)"
  define p400 where "p400 = (y mod 400 = 0)"
  have chain: "p400 \<longrightarrow> p100" "p100 \<longrightarrow> p4"
    unfolding p4_def p100_def p400_def using mod_chain [of y] by blast+
  have e: "y + 1 - 1970 = y - 1969" "y + 1 - 1969 = y - 1968" "y + 1 - 1901 = y - 1900"
    "y + 1 - 1601 = y - 1600" by simp_all
  have "DayFromYear (y + 1) =
      365 * (y - 1969) + (A + (if p4 then 1 else 0)) - (B + (if p100 then 1 else 0))
        + (C + (if p400 then 1 else 0))"
    by (simp only: DayFromYear_def e div_step A_def B_def C_def p4_def p100_def p400_def)
  moreover have "DayFromYear y = 365 * (y - 1970) + A - B + C"
    by (simp only: DayFromYear_def A_def B_def C_def)
  moreover have "DaysInYear y =
     (if \<not> p4 then 365 else if \<not> p100 then 366 else if \<not> p400 then 365 else 366)"
    by (simp only: DaysInYear_def p4_def p100_def p400_def)
  ultimately show ?thesis
    using chain by (cases p4; cases p100; cases p400) simp_all
qed

lemma DaysInYear_cases: "DaysInYear y = 365 \<or> DaysInYear y = 366"
  by (simp add: DaysInYear_def)

lemma DayFromYear_less_next: "DayFromYear y < DayFromYear (y + 1)"
  using DaysInYear_cases [of y] by (simp only: DayFromYear_next) linarith

lemma year_from_bounds:
  "DayFromYear y \<le> z \<Longrightarrow>
     DayFromYear (year_from y z) \<le> z \<and> z < DayFromYear (year_from y z + 1)"
proof (induction y z rule: year_from.induct)
  case (1 y z)
  show ?case
  proof (cases "DayFromYear (y + 1) \<le> z")
    case True
    with "1.IH" show ?thesis by (simp add: year_from.simps [of y z])
  next
    case False
    with "1.prems" show ?thesis by (simp add: year_from.simps [of y z])
  qed
qed

lemma DayFromYear_mono: "y \<le> y' \<Longrightarrow> DayFromYear y \<le> DayFromYear y'"
proof (induction y' rule: int_ge_induct)
  case base
  show ?case by simp
next
  case (step j)
  with DayFromYear_less_next [of j] show ?case by linarith
qed

lemma DayFromYear_1970: "DayFromYear 1970 = 0"
  by (simp add: DayFromYear_def)

lemma DaysInYear_bounds: "365 \<le> DaysInYear y" "DaysInYear y \<le> 366"
  by (simp_all add: DaysInYear_def)

lemma DayFromYear_upper: "0 \<le> k \<Longrightarrow> DayFromYear (1970 + k) \<le> 366 * k"
proof (induction k rule: int_ge_induct)
  case base
  show ?case by (simp add: DayFromYear_1970)
next
  case (step j)
  have "DayFromYear (1970 + (j + 1)) = DayFromYear (1970 + j) + DaysInYear (1970 + j)"
    using DayFromYear_next [of "1970 + j"] by (simp only: add.assoc)
  also have "\<dots> \<le> 366 * j + 366"
    by (rule add_mono) (fact step.IH, rule DaysInYear_bounds)
  also have "\<dots> = 366 * (j + 1)" by simp
  finally show ?case .
qed

lemma DayFromYear_lower: "k \<le> 0 \<Longrightarrow> DayFromYear (1970 + k) \<le> 365 * k"
proof (induction k rule: int_le_induct)
  case base
  show ?case by (simp add: DayFromYear_1970)
next
  case (step j)
  define a where "a = DayFromYear (1970 + (j - 1))"
  define d where "d = DaysInYear (1970 + (j - 1))"
  have "1970 + (j - 1) + 1 = 1970 + j" by simp
  with DayFromYear_next [of "1970 + (j - 1)"]
  have "DayFromYear (1970 + j) = a + d" by (simp only: a_def d_def)
  with step.IH have "a + d \<le> 365 * j" by (simp only:)
  moreover have "365 \<le> d" unfolding d_def by (rule DaysInYear_bounds)
  ultimately have "a \<le> 365 * (j - 1)" by simp
  then show ?case by (simp only: a_def)
qed

lemma div_mult_le_int:
  fixes x k :: int
  assumes "0 < k"
  shows "k * (x div k) \<le> x"
proof -
  have "x = k * (x div k) + x mod k" by simp
  moreover have "0 \<le> x mod k" using assms by simp
  ultimately show ?thesis by linarith
qed

lemma estimate_not_late:
  "DayFromYear (1970 + (if 0 \<le> z then z div 366 else z div 365 - 1)) \<le> z"
proof (cases "0 \<le> z")
  case True
  define k where "k = z div 366"
  have k0: "0 \<le> k" unfolding k_def using True by (simp add: pos_imp_zdiv_nonneg_iff)
  have "366 * k \<le> z" unfolding k_def by (rule div_mult_le_int) simp
  with DayFromYear_upper [OF k0] have "DayFromYear (1970 + k) \<le> z" by (rule order_trans)
  with True show ?thesis by (simp only: k_def if_True)
next
  case False
  define q where "q = z div 365"
  have "q < 0" unfolding q_def using False by (simp add: div_neg_pos_less0)
  then have k0: "q - 1 \<le> 0" by simp
  have "365 * q \<le> z" unfolding q_def by (rule div_mult_le_int) simp
  then have "365 * (q - 1) \<le> z" by simp
  with DayFromYear_lower [OF k0] have "DayFromYear (1970 + (q - 1)) \<le> z" by (rule order_trans)
  with False show ?thesis by (simp only: q_def if_False)
qed

lemma YearFromDay_bounds:
  "DayFromYear (YearFromDay z) \<le> z" "z < DayFromYear (YearFromDay z + 1)"
  using year_from_bounds [OF estimate_not_late [of z]] by (simp_all only: YearFromDay_def)

lemma YearFromDay_unique:
  assumes "DayFromYear y \<le> z" and "z < DayFromYear (y + 1)"
  shows "YearFromDay z = y"
proof (rule ccontr)
  assume ne: "YearFromDay z \<noteq> y"
  show False
  proof (cases "YearFromDay z < y")
    case True
    then have "DayFromYear (YearFromDay z + 1) \<le> DayFromYear y" by (intro DayFromYear_mono) simp
    with assms(1) YearFromDay_bounds(2) [of z] show False by linarith
  next
    case False
    with ne have "DayFromYear (y + 1) \<le> DayFromYear (YearFromDay z)"
      by (intro DayFromYear_mono) simp
    with assms(2) YearFromDay_bounds(1) [of z] show False by linarith
  qed
qed

lemma YearFromDay_iff:
  "(YearFromDay z = y) = (DayFromYear y \<le> z \<and> z < DayFromYear (y + 1))"
  using YearFromDay_unique YearFromDay_bounds by blast

lemma month_cases:
  fixes m :: int
  assumes "0 \<le> m" and "m \<le> 11"
  shows "m = 0 \<or> m = 1 \<or> m = 2 \<or> m = 3 \<or> m = 4 \<or> m = 5 \<or> m = 6 \<or> m = 7 \<or> m = 8 \<or> m = 9
         \<or> m = 10 \<or> m = 11"
  using assms by arith

lemma month_of_day_range: "0 \<le> month_of_day l d \<and> month_of_day l d \<le> 11"
  by (simp add: month_of_day_def)

lemma month_of_day_iff:
  assumes "l = 0 \<or> l = 1" and "0 \<le> m" and "m \<le> 11" and "0 \<le> d" and "d < 365 + l"
  shows "(month_of_day l d = m) = (first_of_month l m \<le> d \<and> d < next_first l m)"
  using month_cases [OF assms(2,3)] assms(1,4,5)
  by (elim disjE) (auto simp: month_of_day_def first_of_month_def next_first_def)

lemma leap_value:
  "(if DaysInYear y = 365 then 0 else 1) = DaysInYear y - 365"
  "DaysInYear y - 365 = 0 \<or> DaysInYear y - 365 = 1"
  using DaysInYear_cases [of y] by auto

lemma leap_rule:
  "(DaysInYear y = 366) = (y mod 4 = 0 \<and> (y mod 100 \<noteq> 0 \<or> y mod 400 = 0))"
proof -
  define p4 where "p4 = (y mod 4 = 0)"
  define p100 where "p100 = (y mod 100 = 0)"
  define p400 where "p400 = (y mod 400 = 0)"
  have chain: "p400 \<longrightarrow> p100" "p100 \<longrightarrow> p4"
    unfolding p4_def p100_def p400_def using mod_chain [of y] by blast+
  have "DaysInYear y =
     (if \<not> p4 then 365 else if \<not> p100 then 366 else if \<not> p400 then 365 else 366)"
    by (simp only: DaysInYear_def p4_def p100_def p400_def)
  then have "(DaysInYear y = 366) = (p4 \<and> (\<not> p100 \<or> p400))"
    using chain by (cases p4; cases p100; cases p400) simp_all
  then show ?thesis by (simp only: p4_def p100_def p400_def)
qed

lemma MakeDay_first:
  assumes "0 \<le> m" and "m \<le> 11"
  shows "MakeDay y m 1 = DayFromYear y + first_of_month (DaysInYear y - 365) m"
proof -
  have "m < 12" using assms(2) by simp
  with assms(1) have "m div 12 = 0" "m mod 12 = m" by simp_all
  then show ?thesis by (simp add: MakeDay_def leap_value(1))
qed

lemma MakeDay_next:
  assumes "0 \<le> m" and "m \<le> 11"
  shows "MakeDay y (m + 1) 1 = DayFromYear y + next_first (DaysInYear y - 365) m"
proof (cases "m = 11")
  case True
  have "MakeDay y 12 1 = DayFromYear (y + 1)"
    by (simp add: MakeDay_def first_of_month_def)
  also have "\<dots> = DayFromYear y + (365 + (DaysInYear y - 365))"
    by (simp add: DayFromYear_next)
  finally show ?thesis using True by (simp add: next_first_def)
next
  case False
  with assms have "0 \<le> m + 1" "m + 1 \<le> 11" by simp_all
  from MakeDay_first [OF this] False show ?thesis by (simp add: next_first_def)
qed

lemma month_within_year:
  assumes "l = 0 \<or> l = 1" and "0 \<le> m" and "m \<le> 11"
  shows "0 \<le> first_of_month l m" and "first_of_month l m < next_first l m"
    and "next_first l m \<le> 365 + l"
  using month_cases [OF assms(2,3)] assms(1)
  by (auto simp: first_of_month_def next_first_def)

lemma month_span:
  assumes "0 \<le> m" and "m \<le> 11"
  shows "(YearFromDay z = y \<and> MonthFromDay z = m)
           = (MakeDay y m 1 \<le> z \<and> z < MakeDay y (m + 1) 1)"
proof -
  define l where "l = DaysInYear y - 365"
  define D where "D = DayFromYear y"
  have l: "l = 0 \<or> l = 1" unfolding l_def by (rule leap_value)
  have nxt: "DayFromYear (y + 1) = D + (365 + l)" by (simp add: DayFromYear_next l_def D_def)
  have lo: "MakeDay y m 1 = D + first_of_month l m"
    unfolding l_def D_def by (rule MakeDay_first [OF assms])
  have hi: "MakeDay y (m + 1) 1 = D + next_first l m"
    unfolding l_def D_def by (rule MakeDay_next [OF assms])
  note w = month_within_year [OF l assms]
  show ?thesis
  proof
    assume a: "YearFromDay z = y \<and> MonthFromDay z = m"
    then have Y: "YearFromDay z = y" and M: "MonthFromDay z = m" by simp_all
    from YearFromDay_bounds [of z] Y nxt have b: "D \<le> z" "z < D + (365 + l)"
      by (simp_all add: D_def)
    have "month_of_day l (z - D) = m"
      using M Y by (simp add: MonthFromDay_def InLeapYear_def DayWithinYear_def leap_value(1) l_def D_def)
    moreover have "0 \<le> z - D" "z - D < 365 + l" using b by simp_all
    ultimately have "first_of_month l m \<le> z - D \<and> z - D < next_first l m"
      using month_of_day_iff [OF l assms] by blast
    then show "MakeDay y m 1 \<le> z \<and> z < MakeDay y (m + 1) 1"
      unfolding lo hi by simp
  next
    assume "MakeDay y m 1 \<le> z \<and> z < MakeDay y (m + 1) 1"
    then have c: "first_of_month l m \<le> z - D" "z - D < next_first l m"
      unfolding lo hi by simp_all
    with w have b: "0 \<le> z - D" "z - D < 365 + l" by simp_all
    then have "DayFromYear y \<le> z" "z < DayFromYear (y + 1)"
      unfolding nxt by (simp_all add: D_def)
    then have Y: "YearFromDay z = y" by (rule YearFromDay_unique)
    have "month_of_day l (z - D) = m"
      using month_of_day_iff [OF l assms b] c by blast
    then have "MonthFromDay z = m"
      using Y by (simp add: MonthFromDay_def InLeapYear_def DayWithinYear_def leap_value(1) l_def D_def)
    with Y show "YearFromDay z = y \<and> MonthFromDay z = m" by simp
  qed
qed

lemma MonthFromDay_range: "0 \<le> MonthFromDay z" "MonthFromDay z \<le> 11"
  using month_of_day_range by (simp_all add: MonthFromDay_def)

lemma mult_le_iff_le_div:
  fixes a x k :: int
  assumes "0 < k"
  shows "(a * k \<le> x) = (a \<le> x div k)"
proof
  assume "a * k \<le> x"
  then have "(a * k) div k \<le> x div k" using assms by (rule zdiv_mono1)
  then show "a \<le> x div k" using assms by simp
next
  assume "a \<le> x div k"
  then have "a * k \<le> (x div k) * k" using assms by (simp add: mult_right_mono)
  also have "\<dots> \<le> x" using div_mult_le_int [OF assms, of x] by (simp add: mult.commute)
  finally show "a * k \<le> x" .
qed

lemma ms_per_day_pos: "0 < ms_per_day"
  by (simp add: ms_per_day_def)

lemma Date_first_le: "(MakeDay y m 1 * ms_per_day - tz \<le> c) = (MakeDay y m 1 \<le> Day (c + tz))"
proof -
  have "(MakeDay y m 1 * ms_per_day - tz \<le> c) = (MakeDay y m 1 * ms_per_day \<le> c + tz)" by linarith
  then show ?thesis by (simp only: mult_le_iff_le_div [OF ms_per_day_pos] Day_def)
qed

lemma Date_first_gt: "(c < MakeDay y m 1 * ms_per_day - tz) = (Day (c + tz) < MakeDay y m 1)"
  using Date_first_le [of y m tz c] by linarith

text \<open>
  The instants of the year \<open>y\<close> and month \<open>m\<close> are those from the first of the month to
  the first of the next.
\<close>

lemma month_span_ms:
  assumes "0 \<le> m" and "m \<le> 11" and "99 < y"
  shows "(getFullYear tz c = y \<and> getMonth tz c = m)
           = (Date_first tz y m \<le> c \<and> c < Date_first tz y (m + 1))"
proof -
  have "MakeFullYear y = y" using assms(3) by (simp add: MakeFullYear_def)
  then show ?thesis
    by (simp only: getFullYear_def getMonth_def Date_first_def Date_first_le Date_first_gt
        month_span [OF assms(1,2)])
qed

lemma year_of_clock:
  assumes "0 \<le> now + tz"
  shows "1970 \<le> getFullYear tz now"
proof (rule ccontr)
  assume "\<not> 1970 \<le> getFullYear tz now"
  then have "getFullYear tz now + 1 \<le> 1970" by simp
  then have "DayFromYear (getFullYear tz now + 1) \<le> DayFromYear 1970" by (rule DayFromYear_mono)
  moreover have "0 \<le> Day (now + tz)"
    unfolding Day_def using assms ms_per_day_pos by (simp add: pos_imp_zdiv_nonneg_iff)
  moreover have "Day (now + tz) < DayFromYear (getFullYear tz now + 1)"
    unfolding getFullYear_def by (rule YearFromDay_bounds)
  ultimately show False by (simp add: DayFromYear_1970)
qed

lemma month_length:
  assumes "0 \<le> m" and "m \<le> 11" and "99 < y"
  shows "Date_first tz y (m + 1) - Date_first tz y m =
     ms_per_day *
       (if m = 1 then (if y mod 4 = 0 \<and> (y mod 100 \<noteq> 0 \<or> y mod 400 = 0) then 29 else 28)
        else if m = 3 \<or> m = 5 \<or> m = 8 \<or> m = 10 then 30
        else 31)"
proof -
  define l where "l = DaysInYear y - 365"
  define leap where "leap = (y mod 4 = 0 \<and> (y mod 100 \<noteq> 0 \<or> y mod 400 = 0))"
  have l: "l = 0 \<or> l = 1" unfolding l_def by (rule leap_value)
  have ll: "(l = 1) = leap"
    unfolding l_def leap_def using leap_rule [of y] by auto
  have full: "MakeFullYear y = y" using assms(3) by (simp add: MakeFullYear_def)
  have "Date_first tz y (m + 1) - Date_first tz y m
      = (MakeDay y (m + 1) 1 - MakeDay y m 1) * ms_per_day"
    by (simp add: Date_first_def full algebra_simps)
  also have "MakeDay y (m + 1) 1 - MakeDay y m 1 = next_first l m - first_of_month l m"
    by (simp add: MakeDay_first [OF assms(1,2)] MakeDay_next [OF assms(1,2)] l_def)
  also have "\<dots> = (if m = 1 then (if leap then 29 else 28)
        else if m = 3 \<or> m = 5 \<or> m = 8 \<or> m = 10 then 30 else 31)"
    using month_cases [OF assms(1,2)] l ll
    by (elim disjE) (auto simp: first_of_month_def next_first_def)
  finally show ?thesis by (simp only: leap_def mult.commute)
qed

lemma month_of_clock:
  assumes "0 \<le> now + tz"
  shows "0 \<le> getMonth tz now \<and> getMonth tz now \<le> 11 \<and>
     Date_first tz (getFullYear tz now) (getMonth tz now) \<le> now \<and>
     now < Date_first tz (getFullYear tz now) (getMonth tz now + 1) \<and>
     (\<forall>c. (Date_first tz (getFullYear tz now) (getMonth tz now) \<le> c \<and>
           c < Date_first tz (getFullYear tz now) (getMonth tz now + 1))
          = (getFullYear tz c = getFullYear tz now \<and> getMonth tz c = getMonth tz now))"
proof -
  have m: "0 \<le> getMonth tz now" "getMonth tz now \<le> 11"
    unfolding getMonth_def by (rule MonthFromDay_range)+
  have y: "99 < getFullYear tz now" using year_of_clock [OF assms] by simp
  note span = month_span_ms [OF m y, of tz]
  have "Date_first tz (getFullYear tz now) (getMonth tz now) \<le> now \<and>
     now < Date_first tz (getFullYear tz now) (getMonth tz now + 1)"
    using span [of now] by simp
  with m span show ?thesis by simp
qed

section \<open>Statistics: the four aggregates\<close>

lemma group_count_distinct: "distinct (map fst (group_count key ts))"
  by (simp add: group_count_def comp_def)

lemma length_filter_pos: "(0 < length (filter P xs)) = (\<exists>x \<in> set xs. P x)"
  by (induction xs) auto

lemma group_count_set:
  "((v, n) \<in> set (group_count key ts)) = (0 < n \<and> n = length (filter (\<lambda>t. key t = v) ts))"
proof -
  have "((v, n) \<in> set (group_count key ts))
      = (v \<in> key ` set ts \<and> n = length (filter (\<lambda>t. key t = v) ts))"
    by (auto simp: group_count_def)
  also have "(v \<in> key ` set ts) = (0 < length (filter (\<lambda>t. key t = v) ts))"
    unfolding length_filter_pos by auto
  finally show ?thesis by auto
qed

lemma matches_active:
  "matches rx ((ownership_scope u)\<lparr>f_isArchived := Some False\<rparr>) =
     (\<lambda>t. (role u = ''admin'' \<or> assignedTo t = user_id u \<or> createdBy t = user_id u) \<and> \<not> isArchived t)"
  by (rule ext) (simp add: matches_def ownership_scope_def no_filter_def)

lemma matches_overdue:
  "matches rx ((ownership_scope u)\<lparr>f_dueDate := Some \<lparr>r_gte = None, r_lt = Some now\<rparr>,
       f_status := Some (StatusNin [''completed'', ''cancelled'']), f_isArchived := Some False\<rparr>) =
     (\<lambda>t. (role u = ''admin'' \<or> assignedTo t = user_id u \<or> createdBy t = user_id u) \<and> \<not> isArchived t \<and>
      (\<exists>d. dueDate t = Some d \<and> d < now) \<and> status t \<noteq> ''completed'' \<and> status t \<noteq> ''cancelled'')"
  by (rule ext) (auto simp: matches_def ownership_scope_def no_filter_def in_range_def split: option.splits)

lemma matches_completed:
  "matches rx ((ownership_scope u)\<lparr>f_status := Some (StatusIs ''completed''),
       f_completedAt := Some \<lparr>r_gte = Some lo, r_lt = Some hi\<rparr>\<rparr>) =
     (\<lambda>t. (role u = ''admin'' \<or> assignedTo t = user_id u \<or> createdBy t = user_id u) \<and>
      status t = ''completed'' \<and> (\<exists>c. completedAt t = Some c \<and> lo \<le> c \<and> c < hi))"
  by (rule ext) (auto simp: matches_def ownership_scope_def no_filter_def in_range_def split: option.splits)

text \<open>
  C7. The four aggregates of \<open>getTaskStats\<close> share the ownership scope of the caller:
  every task for an administrator, the tasks assigned to or created by the caller
  otherwise. The status statistics hold one entry for each status that occurs among the
  tasks of the scope that are not archived, with the number of those tasks that have it,
  and the priority statistics likewise; the overdue count is the number of tasks of the
  scope, not archived, due before the clock, whose status is neither completed nor
  cancelled. The count of the tasks completed this month is over the tasks of the scope,
  archived or not, whose status is \<open>completed\<close> and whose completion time lies from the
  first of the month to the first of the next; when every completion in the store is
  before the first of the month the count is 0. For a clock at or after the epoch in the
  zone of the server, that range holds the clock, its length is that of the month of the
  clock in the Gregorian calendar, and it holds exactly the instants whose year and
  month in the zone of the server are those of the clock.
\<close>

theorem stats_scope:
  "distinct (map fst (statusStats (getTaskStats rx tz now u s))) \<and>
   ((v, n) \<in> set (statusStats (getTaskStats rx tz now u s)))
     = (0 < n \<and>
        n = length (filter (\<lambda>t. (role u = ''admin'' \<or> assignedTo t = user_id u \<or> createdBy t = user_id u) \<and>
                               \<not> isArchived t \<and> status t = v) s)) \<and>
   distinct (map fst (priorityStats (getTaskStats rx tz now u s))) \<and>
   ((w, k) \<in> set (priorityStats (getTaskStats rx tz now u s)))
     = (0 < k \<and>
        k = length (filter (\<lambda>t. (role u = ''admin'' \<or> assignedTo t = user_id u \<or> createdBy t = user_id u) \<and>
                               \<not> isArchived t \<and> priority t = w) s)) \<and>
   overdueTasks (getTaskStats rx tz now u s) =
     length (filter (\<lambda>t. (role u = ''admin'' \<or> assignedTo t = user_id u \<or> createdBy t = user_id u) \<and>
                          \<not> isArchived t \<and> (\<exists>d. dueDate t = Some d \<and> d < now) \<and>
                          status t \<noteq> ''completed'' \<and> status t \<noteq> ''cancelled'') s) \<and>
   completedThisMonth (getTaskStats rx tz now u s) =
     length (filter (\<lambda>t. (role u = ''admin'' \<or> assignedTo t = user_id u \<or> createdBy t = user_id u) \<and>
                          status t = ''completed'' \<and>
                          (\<exists>c. completedAt t = Some c \<and>
                               Date_first tz (getFullYear tz now) (getMonth tz now) \<le> c \<and>
                               c < Date_first tz (getFullYear tz now) (getMonth tz now + 1))) s) \<and>
   ((\<forall>t \<in> set s. \<forall>c. completedAt t = Some c \<longrightarrow>
        c < Date_first tz (getFullYear tz now) (getMonth tz now))
      \<longrightarrow> completedThisMonth (getTaskStats rx tz now u s) = 0) \<and>
   (0 \<le> now + tz \<longrightarrow>
      0 \<le> getMonth tz now \<and> getMonth tz now \<le> 11 \<and>
      Date_first tz (getFullYear tz now) (getMonth tz now) \<le> now \<and>
      now < Date_first tz (getFullYear tz now) (getMonth tz now + 1) \<and>
      Date_first tz (getFullYear tz now) (getMonth tz now + 1)
        - Date_first tz (getFullYear tz now) (getMonth tz now) =
        ms_per_day *
          (if getMonth tz now = 1
           then (if getFullYear tz now mod 4 = 0 \<and>
                    (getFullYear tz now mod 100 \<noteq> 0 \<or> getFullYear tz now mod 400 = 0)
                 then 29 else 28)
           else if getMonth tz now = 3 \<or> getMonth tz now = 5 \<or> getMonth tz now = 8 \<or>
                   getMonth tz now = 10
                then 30
                else 31) \<and>
      (\<forall>c. (Date_first tz (getFullYear tz now) (getMonth tz now) \<le> c \<and>
            c < Date_first tz (getFullYear tz now) (getMonth tz now + 1))
           = (getFullYear tz c = getFullYear tz now \<and> getMonth tz c = getMonth tz now)) \<and>
      completedThisMonth (getTaskStats rx tz now u s) =
        length (filter (\<lambda>t. (role u = ''admin'' \<or> assignedTo t = user_id u \<or> createdBy t = user_id u) \<and>
                             status t = ''completed'' \<and>
                             (\<exists>c. completedAt t = Some c \<and> getFullYear tz c = getFullYear tz now \<and>
                                  getMonth tz c = getMonth tz now)) s))"
proof -
  let ?S = "getTaskStats rx tz now u s"
  let ?scope = "\<lambda>t. role u = ''admin'' \<or> assignedTo t = user_id u \<or> createdBy t = user_id u"
  let ?y = "getFullYear tz now"
  let ?m = "getMonth tz now"
  have st: "statusStats ?S = group_count status (filter (\<lambda>t. ?scope t \<and> \<not> isArchived t) s)"
    by (simp add: getTaskStats_def Let_def Task_find_def matches_active)
  have pr: "priorityStats ?S = group_count priority (filter (\<lambda>t. ?scope t \<and> \<not> isArchived t) s)"
    by (simp add: getTaskStats_def Let_def Task_find_def matches_active)
  have c1: "distinct (map fst (statusStats ?S))"
    unfolding st by (rule group_count_distinct)
  have c2: "((v, n) \<in> set (statusStats ?S))
     = (0 < n \<and> n = length (filter (\<lambda>t. ?scope t \<and> \<not> isArchived t \<and> status t = v) s))"
    unfolding st group_count_set by (simp add: conj_assoc)
  have c3: "distinct (map fst (priorityStats ?S))"
    unfolding pr by (rule group_count_distinct)
  have c4: "((w, k) \<in> set (priorityStats ?S))
     = (0 < k \<and> k = length (filter (\<lambda>t. ?scope t \<and> \<not> isArchived t \<and> priority t = w) s))"
    unfolding pr group_count_set by (simp add: conj_assoc)
  have c5: "overdueTasks ?S =
     length (filter (\<lambda>t. ?scope t \<and> \<not> isArchived t \<and> (\<exists>d. dueDate t = Some d \<and> d < now) \<and>
                          status t \<noteq> ''completed'' \<and> status t \<noteq> ''cancelled'') s)"
    by (simp add: getTaskStats_def Let_def countDocuments_def matches_overdue)
  have c6: "completedThisMonth ?S =
     length (filter (\<lambda>t. ?scope t \<and> status t = ''completed'' \<and>
                          (\<exists>c. completedAt t = Some c \<and> Date_first tz ?y ?m \<le> c \<and>
                               c < Date_first tz ?y (?m + 1))) s)"
    by (simp add: getTaskStats_def Let_def countDocuments_def matches_completed)
  have c7: "(\<forall>t \<in> set s. \<forall>c. completedAt t = Some c \<longrightarrow> c < Date_first tz ?y ?m)
      \<longrightarrow> completedThisMonth ?S = 0"
    unfolding c6 by (auto simp: filter_empty_conv)
  have c8: "0 \<le> now + tz \<longrightarrow>
      0 \<le> ?m \<and> ?m \<le> 11 \<and> Date_first tz ?y ?m \<le> now \<and> now < Date_first tz ?y (?m + 1) \<and>
      Date_first tz ?y (?m + 1) - Date_first tz ?y ?m =
        ms_per_day *
          (if ?m = 1
           then (if ?y mod 4 = 0 \<and> (?y mod 100 \<noteq> 0 \<or> ?y mod 400 = 0) then 29 else 28)
           else if ?m = 3 \<or> ?m = 5 \<or> ?m = 8 \<or> ?m = 10 then 30
                else 31) \<and>
      (\<forall>c. (Date_first tz ?y ?m \<le> c \<and> c < Date_first tz ?y (?m + 1))
           = (getFullYear tz c = ?y \<and> getMonth tz c = ?m)) \<and>
      completedThisMonth ?S =
        length (filter (\<lambda>t. ?scope t \<and> status t = ''completed'' \<and>
                             (\<exists>c. completedAt t = Some c \<and> getFullYear tz c = ?y \<and>
                                  getMonth tz c = ?m)) s)"
  proof
    assume clock: "0 \<le> now + tz"
    note cal = month_of_clock [OF clock]
    have m: "0 \<le> ?m" "?m \<le> 11" using cal by blast+
    have y: "99 < ?y" using year_of_clock [OF clock] by simp
    have inside: "Date_first tz ?y ?m \<le> now" "now < Date_first tz ?y (?m + 1)"
      using cal by blast+
    have span: "\<forall>c. (Date_first tz ?y ?m \<le> c \<and> c < Date_first tz ?y (?m + 1))
           = (getFullYear tz c = ?y \<and> getMonth tz c = ?m)"
      using cal by blast
    have len: "Date_first tz ?y (?m + 1) - Date_first tz ?y ?m =
        ms_per_day *
          (if ?m = 1
           then (if ?y mod 4 = 0 \<and> (?y mod 100 \<noteq> 0 \<or> ?y mod 400 = 0) then 29 else 28)
           else if ?m = 3 \<or> ?m = 5 \<or> ?m = 8 \<or> ?m = 10 then 30
                else 31)"
      by (rule month_length [OF m y])
    have eq: "(\<lambda>t. ?scope t \<and> status t = ''completed'' \<and>
                (\<exists>c. completedAt t = Some c \<and> Date_first tz ?y ?m \<le> c \<and>
                     c < Date_first tz ?y (?m + 1)))
        = (\<lambda>t. ?scope t \<and> status t = ''completed'' \<and>
                (\<exists>c. completedAt t = Some c \<and> getFullYear tz c = ?y \<and> getMonth tz c = ?m))"
      using span by (simp only: conj_assoc [symmetric])
    have cnt: "completedThisMonth ?S =
        length (filter (\<lambda>t. ?scope t \<and> status t = ''completed'' \<and>
                             (\<exists>c. completedAt t = Some c \<and> getFullYear tz c = ?y \<and>
                                  getMonth tz c = ?m)) s)"
      unfolding c6 by (rule arg_cong [where f = "\<lambda>P. length (filter P s)", OF eq])
    show "0 \<le> ?m \<and> ?m \<le> 11 \<and> Date_first tz ?y ?m \<le> now \<and> now < Date_first tz ?y (?m + 1) \<and>
      Date_first tz ?y (?m + 1) - Date_first tz ?y ?m =
        ms_per_day *
          (if ?m = 1
           then (if ?y mod 4 = 0 \<and> (?y mod 100 \<noteq> 0 \<or> ?y mod 400 = 0) then 29 else 28)
           else if ?m = 3 \<or> ?m = 5 \<or> ?m = 8 \<or> ?m = 10 then 30
                else 31) \<and>
      (\<forall>c. (Date_first tz ?y ?m \<le> c \<and> c < Date_first tz ?y (?m + 1))
           = (getFullYear tz c = ?y \<and> getMonth tz c = ?m)) \<and>
      completedThisMonth ?S =
        length (filter (\<lambda>t. ?scope t \<and> status t = ''completed'' \<and>
                             (\<exists>c. completedAt t = Some c \<and> getFullYear tz c = ?y \<and>
                                  getMonth tz c = ?m)) s)"
      by (intro conjI m inside len span cnt)
  qed
  show ?thesis by (intro conjI c1 c2 c3 c4 c5 c6 c7 c8)
qed

lemma month_of_sample:
  "getFullYear 0 noon_5_march = 2024"
  "getMonth 0 noon_5_march = 2"
  "Date_first 0 (getFullYear 0 noon_5_march) (getMonth 0 noon_5_march) = 1709251200000"
  "Date_first 0 (getFullYear 0 noon_5_march) (getMonth 0 noon_5_march + 1) = 1711929600000"
  by code_simp+

lemma stats_of_sample:
  "statusStats (getTaskStats word_regex 0 noon_5_march root three_tasks)
     = [(''pending'', 2), (''in-progress'', 1)]"
  "priorityStats (getTaskStats word_regex 0 noon_5_march alice three_tasks)
     = [(''medium'', 2), (''high'', 1)]"
  "overdueTasks (getTaskStats word_regex 0 noon_5_march alice three_tasks) = 2"
  by code_simp+

theorem stats_scope_witness:
  "0 \<le> noon_5_march + 0 \<and>
   getFullYear 0 noon_5_march = 2024 \<and> getMonth 0 noon_5_march = 2 \<and>
   Date_first 0 2024 2 \<le> noon_5_march \<and> noon_5_march < Date_first 0 2024 (2 + 1) \<and>
   Date_first 0 2024 (2 + 1) - Date_first 0 2024 2 = ms_per_day * 31 \<and>
   noon_5_march - 1708430400000 < 30 * ms_per_day \<and>
   completedAt february_task = Some 1708430400000 \<and>
   completedThisMonth (getTaskStats word_regex 0 noon_5_march alice [february_task]) = 0 \<and>
   completedThisMonth (getTaskStats word_regex 0 noon_5_march alice [february_task, march_task]) = 1 \<and>
   isArchived march_task \<and>
   statusStats (getTaskStats word_regex 0 noon_5_march root three_tasks)
     = [(''pending'', 2), (''in-progress'', 1)]"
proof -
  have clock: "0 \<le> noon_5_march + 0" by (simp add: noon_5_march_def)
  note th = stats_scope [of word_regex 0 noon_5_march alice "[february_task]"]
  have cal: "Date_first 0 (getFullYear 0 noon_5_march) (getMonth 0 noon_5_march) \<le> noon_5_march \<and>
      noon_5_march < Date_first 0 (getFullYear 0 noon_5_march) (getMonth 0 noon_5_march + 1) \<and>
      Date_first 0 (getFullYear 0 noon_5_march) (getMonth 0 noon_5_march + 1)
        - Date_first 0 (getFullYear 0 noon_5_march) (getMonth 0 noon_5_march) =
        ms_per_day *
          (if getMonth 0 noon_5_march = 1
           then (if getFullYear 0 noon_5_march mod 4 = 0 \<and>
                    (getFullYear 0 noon_5_march mod 100 \<noteq> 0 \<or> getFullYear 0 noon_5_march mod 400 = 0)
                 then 29 else 28)
           else if getMonth 0 noon_5_march = 3 \<or> getMonth 0 noon_5_march = 5 \<or>
                   getMonth 0 noon_5_march = 8 \<or> getMonth 0 noon_5_march = 10
                then 30
                else 31)"
    using th clock by blast
  have ym: "getFullYear 0 noon_5_march = 2024" "getMonth 0 noon_5_march = 2"
    by (rule month_of_sample)+
  from cal have k1: "Date_first 0 2024 2 \<le> noon_5_march"
    and k2: "noon_5_march < Date_first 0 2024 (2 + 1)"
    and k3: "Date_first 0 2024 (2 + 1) - Date_first 0 2024 2 = ms_per_day * 31"
    unfolding ym by simp_all
  have a: "\<forall>t \<in> set [february_task]. \<forall>c. completedAt t = Some c \<longrightarrow>
        c < Date_first 0 (getFullYear 0 noon_5_march) (getMonth 0 noon_5_march)"
    unfolding month_of_sample(3) by (simp add: february_task_def)
  have b: "completedThisMonth (getTaskStats word_regex 0 noon_5_march alice [february_task]) = 0"
    using th a by blast
  have c: "completedThisMonth (getTaskStats word_regex 0 noon_5_march alice [february_task, march_task]) = 1"
    by code_simp
  have d: "noon_5_march - 1708430400000 < 30 * ms_per_day"
    by (simp add: noon_5_march_def ms_per_day_def)
  have e: "completedAt february_task = Some 1708430400000" "isArchived march_task"
    by (simp_all add: february_task_def march_task_def)
  show ?thesis by (intro conjI clock ym k1 k2 k3 d e b c stats_of_sample(1))
qed

section \<open>Authentication: tokens older than the watermark\<close>

text \<open>
  C4. For a token that carries the bearer scheme and verifies, of a subject that exists
  and is active, authentication is rejected as stale exactly when the subject has a
  watermark strictly later than the issue time of the token, whatever the time of the
  request, and the list of users is left as it was; a token issued at or after the
  watermark, or for a subject without a watermark, authenticates.
\<close>

theorem stale_token_rejected:
  "extractToken h = Inr token \<Longrightarrow> jwt token = Some c \<Longrightarrow> User_findById us (c_id c) = Some u \<Longrightarrow>
   isActive u \<Longrightarrow>
     (authenticate jwt now h us = (Inl StaleCredential, us))
       = (\<exists>w. passwordChangedAt u = Some w \<and> c_iat c < w) \<and>
     (fst (authenticate jwt now h us) = Inl StaleCredential)
       = (\<exists>w. passwordChangedAt u = Some w \<and> c_iat c < w) \<and>
     ((\<forall>w. passwordChangedAt u = Some w \<longrightarrow> w \<le> c_iat c) \<longrightarrow>
        authenticate jwt now h us
          = (Inr (u\<lparr>lastLogin := Some now\<rparr>), replace_user (u\<lparr>lastLogin := Some now\<rparr>) us))"
  by (auto simp: authenticate_def verifyToken_def changedPasswordAfter_def split: option.splits)

theorem stale_token_rejected_witness:
  "extractToken (Some ''Bearer old'') = Inr ''old'' \<and> sample_jwt ''old'' = Some old_claims \<and>
   User_findById [alice, bob] (c_id old_claims) = Some bob \<and> isActive bob \<and>
   passwordChangedAt bob = Some 5000 \<and> c_iat old_claims < 5000 \<and>
   authenticate sample_jwt 6000 (Some ''Bearer old'') [alice, bob] = (Inl StaleCredential, [alice, bob]) \<and>
   extractToken (Some ''Bearer new'') = Inr ''new'' \<and> sample_jwt ''new'' = Some new_claims \<and>
   c_iat new_claims = 5000 \<and>
   authenticate sample_jwt 6000 (Some ''Bearer new'') [alice, bob]
     = (Inr (bob\<lparr>lastLogin := Some 6000\<rparr>), replace_user (bob\<lparr>lastLogin := Some 6000\<rparr>) [alice, bob])"
proof -
  have h1: "extractToken (Some ''Bearer old'') = Inr ''old''" by (simp add: extractToken_def)
  have h2: "sample_jwt ''old'' = Some old_claims" by (simp add: sample_jwt_def)
  have h3: "User_findById [alice, bob] (c_id old_claims) = Some bob"
    by (simp add: User_findById_def alice_def bob_def old_claims_def)
  have h4: "isActive bob" by (simp add: bob_def)
  have w: "passwordChangedAt bob = Some 5000" by (simp add: bob_def)
  have i: "c_iat old_claims < 5000" by (simp add: old_claims_def)
  have k1: "extractToken (Some ''Bearer new'') = Inr ''new''" by (simp add: extractToken_def)
  have k2: "sample_jwt ''new'' = Some new_claims" by (simp add: sample_jwt_def)
  have k3: "User_findById [alice, bob] (c_id new_claims) = Some bob"
    by (simp add: User_findById_def alice_def bob_def new_claims_def)
  have j: "c_iat new_claims = 5000" by (simp add: new_claims_def)
  have fresh: "\<forall>w. passwordChangedAt bob = Some w \<longrightarrow> w \<le> c_iat new_claims"
    by (simp add: w j)
  have a: "authenticate sample_jwt 6000 (Some ''Bearer old'') [alice, bob] = (Inl StaleCredential, [alice, bob])"
    using stale_token_rejected [where jwt = sample_jwt and now = 6000, OF h1 h2 h3 h4] w i by blast
  have b: "authenticate sample_jwt 6000 (Some ''Bearer new'') [alice, bob]
     = (Inr (bob\<lparr>lastLogin := Some 6000\<rparr>), replace_user (bob\<lparr>lastLogin := Some 6000\<rparr>) [alice, bob])"
    using stale_token_rejected [where jwt = sample_jwt and now = 6000, OF k1 k2 k3 h4] fresh by blast
  show ?thesis by (intro conjI h1 h2 h3 h4 w i a k1 k2 j b)
qed

end
